theory Spec2Isabelle
  imports Complex_Main
begin

section \<open>Decimal arithmetic in the module's context\<close>

text \<open>
  \<^verbatim>\<open>lao.py\<close> computes every amount with Python's \<^verbatim>\<open>decimal.Decimal\<close>, and line 13
  sets the process-wide context to \<^verbatim>\<open>getcontext().prec = 4\<close>. A finite Decimal is a signed
  coefficient and an exponent, \<open>Dec c e\<close> standing for \<open>c * 10 ^ e\<close>; constructing one from
  a string is exact (\<^verbatim>\<open>Decimal('1000.00')\<close> is \<open>Dec 100000 (-2)\<close>), while every arithmetic
  operation computes the exact result and then rounds it to the context precision, four
  significant digits, with the context's default rounding ROUND_HALF_EVEN. Comparisons
  are exact.

  Not modelled: NaN and infinities (no operation of the module produces one from finite
  operands without raising), the sign of a zero, and the exponent limits Emax/Emin of
  the context (999999 and -999999), which amounts of money do not reach.
\<close>

datatype decimal = Dec (coef: int) (expo: int)

definition prec :: nat where
  \<comment> \<open>line 13: \<^verbatim>\<open>getcontext().prec = 4\<close>\<close>
  "prec = 4"

text \<open>\<^verbatim>\<open>len(str(n))\<close>: the number of decimal digits of a coefficient \<open>n \<ge> 0\<close>.\<close>

function ndigits :: "int \<Rightarrow> nat" where
  "ndigits n = (if n < 10 then 1 else Suc (ndigits (n div 10)))"
  by pat_completeness auto
termination
  by (relation "measure nat") auto

declare ndigits.simps [simp del]

text \<open>
  Dropping the last \<open>k\<close> digits (\<open>k \<ge> 1\<close>) of a coefficient under ROUND_HALF_EVEN: up when
  the dropped part is more than half a unit of the last kept digit, or exactly half
  with the kept part odd.
\<close>

definition round_half_even :: "int \<Rightarrow> nat \<Rightarrow> int" where
  "round_half_even m k =
     (let q = m div 10 ^ k; r = m mod 10 ^ k; half = 5 * 10 ^ (k - 1)
      in if half < r \<or> (r = half \<and> odd q) then q + 1 else q)"

text \<open>
  \<^verbatim>\<open>Decimal._fix\<close>: round to the context precision. A coefficient of at most \<open>prec\<close> digits
  is kept as it is; a longer one loses its last digits, and a carry into a new digit
  (9999.5 to 10000) drops one digit more.
\<close>

definition dec_fix :: "decimal \<Rightarrow> decimal" where
  "dec_fix d =
     (let m = \<bar>coef d\<bar>; n = ndigits m
      in if n \<le> prec then d
         else let k = n - prec; q = round_half_even m k
              in if prec < ndigits q
                 then Dec (sgn (coef d) * (q div 10)) (expo d + int k + 1)
                 else Dec (sgn (coef d) * q) (expo d + int k))"

text \<open>The exact sum, at the smaller of the two exponents.\<close>

definition exact_add :: "decimal \<Rightarrow> decimal \<Rightarrow> decimal" where
  "exact_add a b =
     (let e = min (expo a) (expo b)
      in Dec (coef a * 10 ^ nat (expo a - e) + coef b * 10 ^ nat (expo b - e)) e)"

definition copy_negate :: "decimal \<Rightarrow> decimal" where
  "copy_negate d = Dec (- coef d) (expo d)"

definition dec_add :: "decimal \<Rightarrow> decimal \<Rightarrow> decimal" where
  \<comment> \<open>\<^verbatim>\<open>a + b\<close>\<close>
  "dec_add a b = dec_fix (exact_add a b)"

definition dec_sub :: "decimal \<Rightarrow> decimal \<Rightarrow> decimal" where
  \<comment> \<open>\<^verbatim>\<open>a - b\<close>, which \<^verbatim>\<open>Decimal.__sub__\<close> computes as \<^verbatim>\<open>a + b.copy_negate()\<close>\<close>
  "dec_sub a b = dec_add a (copy_negate b)"

definition dec_neg :: "decimal \<Rightarrow> decimal" where
  \<comment> \<open>unary \<^verbatim>\<open>-a\<close>: it rounds to the context like every other operation\<close>
  "dec_neg d = dec_fix (copy_negate d)"

definition dec_abs :: "decimal \<Rightarrow> decimal" where
  \<comment> \<open>\<^verbatim>\<open>abs(a)\<close>\<close>
  "dec_abs d = dec_fix (Dec \<bar>coef d\<bar> (expo d))"

definition dec_mul :: "decimal \<Rightarrow> decimal \<Rightarrow> decimal" where
  \<comment> \<open>\<^verbatim>\<open>a * b\<close>\<close>
  "dec_mul a b = dec_fix (Dec (coef a * coef b) (expo a + expo b))"

text \<open>
  \<^verbatim>\<open>a ** n\<close> for a non-negative integer \<open>n\<close>: the exact power, rounded. (The decimal
  module documents the result of an inexact power as correctly rounded in all but
  rare cases and always within one unit in the last place.)
\<close>

definition dec_pow :: "decimal \<Rightarrow> nat \<Rightarrow> decimal" where
  "dec_pow a n = dec_fix (Dec (coef a ^ n) (expo a * int n))"

text \<open>Comparisons align the two coefficients at the smaller exponent and are exact.\<close>

definition dec_le :: "decimal \<Rightarrow> decimal \<Rightarrow> bool" where
  \<comment> \<open>\<^verbatim>\<open>a <= b\<close>\<close>
  "dec_le a b =
     (let e = min (expo a) (expo b)
      in coef a * 10 ^ nat (expo a - e) \<le> coef b * 10 ^ nat (expo b - e))"

definition dec_lt :: "decimal \<Rightarrow> decimal \<Rightarrow> bool" where
  \<comment> \<open>\<^verbatim>\<open>a < b\<close>\<close>
  "dec_lt a b =
     (let e = min (expo a) (expo b)
      in coef a * 10 ^ nat (expo a - e) < coef b * 10 ^ nat (expo b - e))"

definition dec_eq :: "decimal \<Rightarrow> decimal \<Rightarrow> bool" where
  \<comment> \<open>\<^verbatim>\<open>a == b\<close>: equality of values, so \<^verbatim>\<open>Decimal('800.0') == Decimal('800.00')\<close>\<close>
  "dec_eq a b =
     (let e = min (expo a) (expo b)
      in coef a * 10 ^ nat (expo a - e) = coef b * 10 ^ nat (expo b - e))"

definition dec_max :: "decimal \<Rightarrow> decimal \<Rightarrow> decimal" where
  \<comment> \<open>the builtin \<^verbatim>\<open>max(a, b)\<close>: the first argument unless the second is greater\<close>
  "dec_max a b = (if dec_lt a b then b else a)"

text \<open>
  Python's builtin \<^verbatim>\<open>sum\<close> starts from the integer 0 and adds the items from left to
  right with \<^verbatim>\<open>+\<close>, each addition rounding to the context.
\<close>

definition py_sum :: "decimal list \<Rightarrow> decimal" where
  "py_sum xs = foldl dec_add (Dec 0 0) xs"

section \<open>Exceptions\<close>

text \<open>
  The exception classes the engine raises, with the message where the class alone does
  not tell the cause. \<open>InvalidOperation\<close> and \<open>DivisionByZero\<close> are the decimal module's
  signals, which the default context traps (raises).
\<close>

datatype error =
    InvalidAmountError string
  | InsufficientFundsError string
  | AccountNotFoundError string
  | ValueError string
  | AssertionError string
  | InvalidOperation
  | DivisionByZero

text \<open>
  \<^verbatim>\<open>a / b\<close> (\<^verbatim>\<open>Decimal.__truediv__\<close>): the quotient is computed to \<open>prec + 1\<close> digits or more,
  with a last digit of 0 or 5 bumped when the division left a remainder, then rounded.
  (When the division is exact Python also strips trailing zeros of the coefficient,
  which changes neither the value nor its rounding.)
\<close>

definition dec_div :: "decimal \<Rightarrow> decimal \<Rightarrow> error + decimal" where
  "dec_div a b =
     (if coef b = 0 then (if coef a = 0 then Inl InvalidOperation else Inl DivisionByZero)
      else if coef a = 0 then Inr (dec_fix (Dec 0 (expo a - expo b)))
      else
        let ma = \<bar>coef a\<bar>; mb = \<bar>coef b\<bar>;
            shift = int (ndigits mb) - int (ndigits ma) + int prec + 1;
            num = (if 0 \<le> shift then ma * 10 ^ nat shift else ma);
            den = (if 0 \<le> shift then mb else mb * 10 ^ nat (- shift));
            q = num div den;
            q' = (if num mod den \<noteq> 0 \<and> q mod 5 = 0 then q + 1 else q)
        in Inr (dec_fix (Dec (sgn (coef a) * sgn (coef b) * q')
                             (expo a - expo b - shift))))"

text \<open>
  \<^verbatim>\<open>a.quantize(Decimal('0.01'))\<close> is \<open>quantize a (-2)\<close>: the value rounded (half even) to the
  exponent \<open>e\<close>. It raises InvalidOperation when the result would need more than \<open>prec\<close>
  digits.
\<close>

definition rescale :: "decimal \<Rightarrow> int \<Rightarrow> decimal" where
  "rescale d e =
     (if e \<le> expo d then Dec (coef d * 10 ^ nat (expo d - e)) e
      else Dec (sgn (coef d) * round_half_even \<bar>coef d\<bar> (nat (e - expo d))) e)"

definition quantize :: "decimal \<Rightarrow> int \<Rightarrow> error + decimal" where
  "quantize d e =
     (if coef d = 0 then Inr (Dec 0 e)
      else if int prec < int (ndigits \<bar>coef d\<bar>) - 1 + expo d - e + 1
      then Inl InvalidOperation
      else let r = rescale d e
           in if prec < ndigits \<bar>coef r\<bar> then Inl InvalidOperation else Inr r)"

section \<open>Accounts and transactions\<close>

text \<open>
  Accounts and transactions are Python objects that refer to each other: a Transaction
  holds its Account, an Account holds the list of its Transactions, and
  \<^verbatim>\<open>Transaction.reverse\<close> mutates both. The model is a store: accounts by object identity,
  and the transactions in the order of their creation, a transaction's identity being
  its index. Fields derived from the clock (identifiers, timestamps) and the
  descriptions are left out.
\<close>

record transaction =
  account :: nat
  amount :: decimal
  txn_type :: string
  status :: string

record account_obj =
  balance :: decimal
  transactions :: "nat list"
  is_active :: bool

record store =
  accounts :: "nat \<Rightarrow> account_obj"
  txns :: "transaction list"

definition MIN_DEPOSIT :: decimal where
  "MIN_DEPOSIT = Dec 5000 (-2)"

definition MIN_WITHDRAWAL :: decimal where
  "MIN_WITHDRAWAL = Dec 2000 (-2)"

definition MAX_DAILY_WITHDRAWAL :: decimal where
  "MAX_DAILY_WITHDRAWAL = Dec 500000 (-2)"

definition LOAN_INTEREST_RATE :: decimal where
  "LOAN_INTEREST_RATE = Dec 8 (-2)"

definition LOAN_TERM_YEARS :: int where
  "LOAN_TERM_YEARS = 5"

text \<open>\<^verbatim>\<open>Account.__init__\<close>: balance \<^verbatim>\<open>Decimal('0.00')\<close>, no transactions, active.\<close>

definition Account_init :: account_obj where
  "Account_init = \<lparr>balance = Dec 0 (-2), transactions = [], is_active = True\<rparr>"

text \<open>\<^verbatim>\<open>Transaction(...)\<close>: a new object, with status \<^verbatim>\<open>"completed"\<close>.\<close>

definition Transaction_init :: "nat \<Rightarrow> decimal \<Rightarrow> string \<Rightarrow> store \<Rightarrow> nat \<times> store" where
  "Transaction_init acct amt ty s =
     (length (txns s),
      s\<lparr>txns := txns s @ [\<lparr>account = acct, amount = amt, txn_type = ty,
                           status = ''completed''\<rparr>]\<rparr>)"

definition set_balance :: "nat \<Rightarrow> decimal \<Rightarrow> store \<Rightarrow> store" where
  "set_balance a b s = s\<lparr>accounts := (accounts s)(a := (accounts s a)\<lparr>balance := b\<rparr>)\<rparr>"

definition append_transaction :: "nat \<Rightarrow> nat \<Rightarrow> store \<Rightarrow> store" where
  \<comment> \<open>\<^verbatim>\<open>account.transactions.append(t)\<close>\<close>
  "append_transaction a t s =
     s\<lparr>accounts := (accounts s)(a := (accounts s a)\<lparr>transactions := transactions (accounts s a) @ [t]\<rparr>)\<rparr>"

text \<open>
  \<^verbatim>\<open>Account._validate_amount\<close>, for an argument that is a Decimal already (the branch
  that converts a float or a string first is not modelled).
\<close>

definition validate_amount :: "decimal \<Rightarrow> error + decimal" where
  "validate_amount amt =
     (if dec_le amt (Dec 0 (-2)) then Inl (InvalidAmountError ''Amount must be positive'')
      else Inr amt)"

text \<open>
  An operation returns the exception or the result together with the store it leaves:
  an exception raised after a mutation leaves the mutation in place.
\<close>

definition deposit :: "nat \<Rightarrow> decimal \<Rightarrow> store \<Rightarrow> (error + nat) \<times> store" where
  "deposit self amt0 s =
     (case validate_amount amt0 of
        Inl e \<Rightarrow> (Inl e, s)
      | Inr amt \<Rightarrow>
          if dec_lt amt MIN_DEPOSIT
          then (Inl (InvalidAmountError ''Minimum deposit is 50.00''), s)
          else
            let (t, s1) = Transaction_init self amt ''deposit'' s;
                s2 = set_balance self (dec_add (balance (accounts s1 self)) amt) s1
            in (Inr t, append_transaction self t s2))"

definition withdraw :: "nat \<Rightarrow> decimal \<Rightarrow> store \<Rightarrow> (error + nat) \<times> store" where
  "withdraw self amt0 s =
     (case validate_amount amt0 of
        Inl e \<Rightarrow> (Inl e, s)
      | Inr amt \<Rightarrow>
          if \<not> is_active (accounts s self)
          then (Inl (ValueError ''Account is inactive''), s)
          else if dec_lt amt MIN_WITHDRAWAL
          then (Inl (InvalidAmountError ''Minimum withdrawal is 20.00''), s)
          else if dec_lt MAX_DAILY_WITHDRAWAL amt
          then (Inl (InvalidAmountError ''Maximum daily withdrawal is 5000.00''), s)
          else if dec_lt (balance (accounts s self)) amt
          then (Inl (InsufficientFundsError ''Insufficient funds for withdrawal''), s)
          else
            let (t, s1) = Transaction_init self (dec_neg amt) ''withdrawal'' s;
                s2 = set_balance self (dec_sub (balance (accounts s1 self)) amt) s1
            in (Inr t, append_transaction self t s2))"

definition transfer :: "nat \<Rightarrow> decimal \<Rightarrow> nat \<Rightarrow> store \<Rightarrow> (error + nat) \<times> store" where
  "transfer self amt0 recipient s =
     (case validate_amount amt0 of
        Inl e \<Rightarrow> (Inl e, s)
      | Inr amt \<Rightarrow>
          if self = recipient
          then (Inl (ValueError ''Cannot transfer to the same account''), s)
          else if \<not> is_active (accounts s recipient)
          then (Inl (ValueError ''Recipient account is inactive''), s)
          else
            (case withdraw self amt s of
               (Inl e, s1) \<Rightarrow> (Inl e, s1)
             | (Inr w, s1) \<Rightarrow>
                 (case deposit recipient amt s1 of
                    (Inl e, s2) \<Rightarrow> (Inl e, s2)
                  | (Inr d, s2) \<Rightarrow>
                      let (t, s3) = Transaction_init self (dec_neg amt) ''transfer'' s2
                      in (Inr t, append_transaction self t s3))))"

text \<open>
  \<^verbatim>\<open>Transaction.reverse\<close>, on the transaction object \<open>self\<close> of the store (an index below
  \<open>length (txns s)\<close>).
\<close>

definition reverse :: "nat \<Rightarrow> store \<Rightarrow> (error + nat) \<times> store" where
  "reverse self s =
     (let this = txns s ! self
      in if status this \<noteq> ''completed''
         then (Inl (ValueError ''Cannot reverse a non-completed transaction''), s)
         else
           let (r, s1) = Transaction_init (account this) (dec_neg (amount this)) ''reversal'' s;
               s2 = set_balance (account this)
                      (dec_add (balance (accounts s1 (account this))) (amount this)) s1;
               s3 = append_transaction (account this) r s2
           in (Inr r, s3\<lparr>txns := (txns s3)[self := (txns s3 ! self)\<lparr>status := ''reversed''\<rparr>]\<rparr>))"

text \<open>
  \<^verbatim>\<open>Bank.close_account\<close>, on the bank's registry of accounts (identifier to Account
  object).
\<close>

definition close_account ::
    "string \<Rightarrow> (string \<rightharpoonup> nat) \<times> store \<Rightarrow> (error + unit) \<times> (string \<rightharpoonup> nat) \<times> store" where
  "close_account account_id bs =
     (case fst bs account_id of
        None \<Rightarrow> (Inl (AccountNotFoundError account_id), bs)
      | Some a \<Rightarrow>
          if \<not> dec_eq (balance (accounts (snd bs) a)) (Dec 0 0)
          then (Inl (ValueError ''Cannot close account with non-zero balance''), bs)
          else (Inr (),
                (fst bs)(account_id := None),
                (snd bs)\<lparr>accounts := (accounts (snd bs))(a := (accounts (snd bs) a)\<lparr>is_active := False\<rparr>)\<rparr>))"

section \<open>Loans\<close>

record loan_payment =
  pay_amount :: decimal
  principal :: decimal
  interest :: decimal

text \<open>
  \<open>term_months\<close> is \<^verbatim>\<open>term_years * 12\<close>, which the constructor's assertion keeps positive, so it
  is a natural number here.
\<close>

record loan =
  original_amount :: decimal
  remaining_amount :: decimal
  interest_rate :: decimal
  term_months :: nat
  payments :: "loan_payment list"
  loan_is_active :: bool

text \<open>\<^verbatim>\<open>Loan.__init__\<close> with its three assertions.\<close>

definition Loan_init :: "decimal \<Rightarrow> decimal \<Rightarrow> int \<Rightarrow> error + loan" where
  "Loan_init amt rate term_years =
     (if \<not> dec_lt (Dec 0 0) amt then Inl (AssertionError ''Loan amount must be positive'')
      else if \<not> dec_lt (Dec 0 0) rate then Inl (AssertionError ''Interest rate must be positive'')
      else if \<not> 0 < term_years then Inl (AssertionError ''Loan term must be at least 1 year'')
      else Inr \<lparr>original_amount = amt, remaining_amount = amt, interest_rate = rate,
                term_months = nat (term_years * 12), payments = [], loan_is_active = True\<rparr>)"

definition calculate_monthly_payment :: "loan \<Rightarrow> error + decimal" where
  "calculate_monthly_payment l =
     (case dec_div (interest_rate l) (Dec 12 0) of
        Inl e \<Rightarrow> Inl e
      | Inr monthly_rate \<Rightarrow>
          let factor = dec_pow (dec_add (Dec 1 0) monthly_rate) (term_months l)
          in (case dec_div (dec_mul (dec_mul (original_amount l) monthly_rate) factor)
                     (dec_sub factor (Dec 1 0)) of
                Inl e \<Rightarrow> Inl e
              | Inr payment \<Rightarrow> quantize payment (- 2)))"

text \<open>
  \<^verbatim>\<open>LoanPayment.__init__\<close>: the assertion that principal and interest add up to the amount
  within one cent, re-raised as a ValueError.
\<close>

definition LoanPayment_init :: "decimal \<Rightarrow> decimal \<Rightarrow> decimal \<Rightarrow> error + loan_payment" where
  "LoanPayment_init amt princ intr =
     (if dec_lt (dec_abs (dec_sub (dec_add princ intr) amt)) (Dec 1 (- 2))
      then Inr \<lparr>pay_amount = amt, principal = princ, interest = intr\<rparr>
      else Inl (ValueError ''Invalid payment amounts: Payment amounts don't add up''))"

definition make_payment :: "decimal \<Rightarrow> loan \<Rightarrow> (error + loan_payment) \<times> loan" where
  "make_payment amt0 l =
     (if \<not> loan_is_active l then (Inl (ValueError ''Loan is not active''), l)
      else if dec_le amt0 (Dec 0 0)
      then (Inl (InvalidAmountError ''Payment amount must be positive''), l)
      else
        let amt = (if dec_lt (remaining_amount l) amt0 then remaining_amount l else amt0)
        in (case dec_div (interest_rate l) (Dec 12 0) of
              Inl e \<Rightarrow> (Inl e, l)
            | Inr monthly_rate \<Rightarrow>
                let due = dec_mul (remaining_amount l) monthly_rate;
                    princ = (if dec_le amt due then Dec 0 0 else dec_sub amt due);
                    intr = (if dec_le amt due then amt else due)
                in (case LoanPayment_init amt princ intr of
                      Inl e \<Rightarrow> (Inl e, l)
                    | Inr p \<Rightarrow>
                        let l1 = l\<lparr>remaining_amount := dec_sub (remaining_amount l) princ,
                                   payments := payments l @ [p]\<rparr>
                        in (Inr p,
                            if dec_le (remaining_amount l1) (Dec 0 0)
                            then l1\<lparr>loan_is_active := False\<rparr> else l1))))"

record schedule_row =
  row_month :: nat
  row_payment :: decimal
  row_principal :: decimal
  row_interest :: decimal
  row_balance :: decimal

text \<open>
  The loop of \<^verbatim>\<open>generate_amortization_schedule\<close>: \<open>schedule_loop k month ...\<close> runs the
  iterations \<open>month, month + 1, ...\<close> of \<^verbatim>\<open>range(1, term_months + 1)\<close>, \<open>k\<close> of them at most,
  and stops at the \<^verbatim>\<open>break\<close>.
\<close>

fun schedule_loop ::
    "nat \<Rightarrow> nat \<Rightarrow> nat \<Rightarrow> decimal \<Rightarrow> decimal \<Rightarrow> decimal \<Rightarrow> schedule_row list \<Rightarrow> schedule_row list" where
  "schedule_loop 0 month term monthly_rate bal monthly_payment schedule = schedule"
| "schedule_loop (Suc k) month term monthly_rate bal monthly_payment schedule =
     (let intr = dec_mul bal monthly_rate;
          princ = (if month = term then bal else dec_sub monthly_payment intr);
          pay = (if month = term then dec_add princ intr else monthly_payment);
          bal' = dec_sub bal princ;
          schedule' = schedule @
            [\<lparr>row_month = month, row_payment = pay, row_principal = princ,
              row_interest = intr, row_balance = dec_max bal' (Dec 0 0)\<rparr>]
      in if dec_le bal' (Dec 0 0) then schedule'
         else schedule_loop k (Suc month) term monthly_rate bal' pay schedule')"

definition generate_amortization_schedule :: "loan \<Rightarrow> error + schedule_row list" where
  "generate_amortization_schedule l =
     (case calculate_monthly_payment l of
        Inl e \<Rightarrow> Inl e
      | Inr monthly_payment \<Rightarrow>
          (case dec_div (interest_rate l) (Dec 12 0) of
             Inl e \<Rightarrow> Inl e
           | Inr monthly_rate \<Rightarrow>
               Inr (schedule_loop (term_months l) 1 (term_months l) monthly_rate
                      (original_amount l) monthly_payment [])))"

section \<open>Sequences of operations and the ledger\<close>

text \<open>
  A caller's sequence of account operations. The caller (the menu loop of \<^verbatim>\<open>main\<close>)
  catches every exception, so a failed operation leaves the store it reached and the
  sequence goes on.
\<close>

datatype operation = Deposit nat decimal | Withdraw nat decimal | Transfer nat decimal nat

fun apply_op :: "operation \<Rightarrow> store \<Rightarrow> store" where
  "apply_op (Deposit a amt) s = snd (deposit a amt s)"
| "apply_op (Withdraw a amt) s = snd (withdraw a amt s)"
| "apply_op (Transfer a amt r) s = snd (transfer a amt r s)"

fun run :: "operation list \<Rightarrow> store \<Rightarrow> store" where
  "run [] s = s"
| "run (x # xs) s = run xs (apply_op x s)"

text \<open>The store before anything happened: every account as its constructor leaves it.\<close>

definition fresh_store :: store where
  "fresh_store = \<lparr>accounts = (\<lambda>_. Account_init), txns = []\<rparr>"

text \<open>\<^verbatim>\<open>[t.amount for t in account.transactions]\<close>\<close>

definition ledger :: "store \<Rightarrow> nat \<Rightarrow> decimal list" where
  "ledger s a = map (\<lambda>t. amount (txns s ! t)) (transactions (accounts s a))"

text \<open>The same without the entries tagged \<^verbatim>\<open>transfer\<close>.\<close>

definition applied_ledger :: "store \<Rightarrow> nat \<Rightarrow> decimal list" where
  "applied_ledger s a =
     map (\<lambda>t. amount (txns s ! t))
       (filter (\<lambda>t. txn_type (txns s ! t) \<noteq> ''transfer'') (transactions (accounts s a)))"

definition ledger_ok :: "store \<Rightarrow> nat \<Rightarrow> bool" where
  "ledger_ok s a =
     (list_all (\<lambda>t. t < length (txns s)) (transactions (accounts s a)) \<and>
      dec_eq (balance (accounts s a)) (py_sum (applied_ledger s a)))"

text \<open>A coefficient of at most \<open>prec\<close> digits: rounding leaves such a decimal as it is.\<close>

definition fits :: "decimal \<Rightarrow> bool" where
  "fits d = (ndigits \<bar>coef d\<bar> \<le> prec)"

text \<open>
  An amount whose unary minus is exact in the context, which is the case when it has at
  most four significant digits.
\<close>

definition neg_exact :: "decimal \<Rightarrow> bool" where
  "neg_exact d = dec_eq (dec_neg d) (copy_negate d)"

fun debit_exact :: "operation \<Rightarrow> bool" where
  "debit_exact (Deposit a amt) = True"
| "debit_exact (Withdraw a amt) = neg_exact amt"
| "debit_exact (Transfer a amt r) = neg_exact amt"

text \<open>The value of a decimal, as a rational number.\<close>

definition val :: "decimal \<Rightarrow> rat" where
  "val d = of_int (coef d) * 10 powi expo d"

section \<open>Sequences of payments on a loan\<close>

text \<open>
  A decimal whose value has at most \<open>prec\<close> significant digits: rounding it to the context
  gives the same value.
\<close>

definition four_digits :: "decimal \<Rightarrow> bool" where
  "four_digits d = dec_eq (dec_fix d) d"

text \<open>
  What an observer of a loan checks: the remaining amount is not negative, and it is zero
  exactly when the loan is no longer active.
\<close>

definition obs_ok :: "loan \<Rightarrow> bool" where
  "obs_ok l =
     (dec_le (Dec 0 0) (remaining_amount l) \<and>
      (dec_eq (remaining_amount l) (Dec 0 0) \<longleftrightarrow> \<not> loan_is_active l))"

text \<open>
  The loan as it is observed before the first \<^verbatim>\<open>make_payment\<close> call and after each call of a
  sequence, a call that raises leaving the loan as it was.
\<close>

fun observations :: "decimal list \<Rightarrow> loan \<Rightarrow> loan list" where
  "observations [] l = [l]"
| "observations (a # as) l = l # observations as (snd (make_payment a l))"

text \<open>The remaining amount never grows from one observation to the next.\<close>

fun non_increasing :: "loan list \<Rightarrow> bool" where
  "non_increasing (x # y # ys) =
     (dec_le (remaining_amount y) (remaining_amount x) \<and> non_increasing (y # ys))"
| "non_increasing _ = True"

text \<open>
  The invariant that \<^verbatim>\<open>make_payment\<close> keeps: a remaining amount of at most \<open>prec\<close> significant
  digits that is not negative, a positive interest rate, and a loan that is active exactly
  when something remains to be paid.
\<close>

definition loan_inv :: "loan \<Rightarrow> bool" where
  "loan_inv l =
     (four_digits (remaining_amount l) \<and> dec_le (Dec 0 0) (remaining_amount l) \<and>
      dec_lt (Dec 0 0) (interest_rate l) \<and>
      (loan_is_active l \<longleftrightarrow> dec_lt (Dec 0 0) (remaining_amount l)))"

section \<open>Concrete states\<close>

text \<open>
  \<^verbatim>\<open>Loan(id, customer, Decimal('10000.00'))\<close> with the default rate and term.
\<close>

definition default_loan :: loan where
  "default_loan =
     \<lparr>original_amount = Dec 1000000 (- 2), remaining_amount = Dec 1000000 (- 2),
      interest_rate = Dec 8 (- 2), term_months = 60, payments = [], loan_is_active = True\<rparr>"

text \<open>The store after \<^verbatim>\<open>deposit(Decimal('1000.00'))\<close> into account 0 of the fresh store.\<close>

definition funded_store :: store where
  "funded_store =
     \<lparr>accounts = (\<lambda>_. Account_init)
        (0 := \<lparr>balance = Dec 1000 0, transactions = [0], is_active = True\<rparr>),
      txns = [\<lparr>account = 0, amount = Dec 100000 (- 2), txn_type = ''deposit'',
               status = ''completed''\<rparr>]\<rparr>"

text \<open>
  Account 0 of the fresh store, registered as ACC-2001 and closed by \<^verbatim>\<open>Bank.close_account\<close>;
  and the same after a later \<^verbatim>\<open>deposit(Decimal('100000'))\<close>.
\<close>

definition closed_store :: store where
  "closed_store = snd (snd (close_account ''ACC-2001'' (Map.empty(''ACC-2001'' \<mapsto> 0), fresh_store)))"

definition closed_rich_store :: store where
  "closed_rich_store = snd (deposit 0 (Dec 100000 0) closed_store)"

text \<open>
  \<^verbatim>\<open>Loan(id, customer, Decimal('12345.67'))\<close> with the default rate and term.
\<close>

definition cents_loan :: loan where
  "cents_loan =
     \<lparr>original_amount = Dec 1234567 (- 2), remaining_amount = Dec 1234567 (- 2),
      interest_rate = Dec 8 (- 2), term_months = 60, payments = [], loan_is_active = True\<rparr>"

section \<open>Facts about the arithmetic\<close>

lemma ndigits_small: "n < 10 \<Longrightarrow> ndigits n = 1"
  by (simp add: ndigits.simps)

lemma ndigits_eqI: "10 ^ k \<le> n \<Longrightarrow> n < 10 ^ Suc k \<Longrightarrow> ndigits n = Suc k"
proof (induction k arbitrary: n)
  case 0
  then show ?case by (simp add: ndigits.simps)
next
  case (Suc k)
  have a: "10 * 10 ^ k \<le> n" and b: "n < 10 * 10 ^ Suc k"
    using Suc.prems by simp_all
  have "10 ^ k \<le> n div 10"
    using a by linarith
  moreover have "n div 10 < 10 ^ Suc k"
    using b by linarith
  ultimately have "ndigits (n div 10) = Suc k"
    by (rule Suc.IH)
  moreover have "(1::int) \<le> 10 ^ k"
    by simp
  then have "\<not> n < 10"
    using a by linarith
  ultimately show ?case
    by (subst ndigits.simps) simp
qed

lemma ndigits_numeralI:
  "0 < k \<Longrightarrow> 10 ^ (k - 1) \<le> n \<Longrightarrow> n < 10 ^ k \<Longrightarrow> ndigits n = k"
  using ndigits_eqI[of "k - 1" n] by simp

lemma val_Dec: "val (Dec c e) = of_int c * 10 powi e"
  by (simp add: val_def)

lemma powi_pos: "(0::rat) < 10 powi e"
  by (simp add: zero_less_power_int)

lemma aligned: "e \<le> expo a \<Longrightarrow> (of_int (coef a * 10 ^ nat (expo a - e)) :: rat) = val a * 10 powi (- e)"
proof -
  assume h: "e \<le> expo a"
  have "(10::rat) powi (expo a - e) = 10 ^ nat (expo a - e)"
    using h by (simp add: power_int_def)
  moreover have "(10::rat) powi (expo a - e) = 10 powi expo a * 10 powi (- e)"
    by (simp add: power_int_diff power_int_minus field_simps)
  ultimately show ?thesis
    by (simp add: val_def)
qed

lemma dec_le_val: "dec_le a b \<longleftrightarrow> val a \<le> val b"
proof -
  let ?e = "min (expo a) (expo b)"
  let ?x = "coef a * 10 ^ nat (expo a - ?e)"
  let ?y = "coef b * 10 ^ nat (expo b - ?e)"
  have "dec_le a b \<longleftrightarrow> (of_int ?x :: rat) \<le> of_int ?y"
    by (simp only: dec_le_def Let_def of_int_le_iff)
  also have "\<dots> \<longleftrightarrow> val a * 10 powi (- ?e) \<le> val b * 10 powi (- ?e)"
    by (simp only: aligned[of ?e a] aligned[of ?e b] min.cobounded1 min.cobounded2)
  also have "\<dots> \<longleftrightarrow> val a \<le> val b"
    using powi_pos[of "- ?e"] by (simp only: mult_le_cancel_right_pos)
  finally show ?thesis .
qed

lemma dec_lt_val: "dec_lt a b \<longleftrightarrow> val a < val b"
proof -
  let ?e = "min (expo a) (expo b)"
  let ?x = "coef a * 10 ^ nat (expo a - ?e)"
  let ?y = "coef b * 10 ^ nat (expo b - ?e)"
  have "dec_lt a b \<longleftrightarrow> (of_int ?x :: rat) < of_int ?y"
    by (simp only: dec_lt_def Let_def of_int_less_iff)
  also have "\<dots> \<longleftrightarrow> val a * 10 powi (- ?e) < val b * 10 powi (- ?e)"
    by (simp only: aligned[of ?e a] aligned[of ?e b] min.cobounded1 min.cobounded2)
  also have "\<dots> \<longleftrightarrow> val a < val b"
    using powi_pos[of "- ?e"] by (simp only: mult_less_cancel_right_pos)
  finally show ?thesis .
qed

lemma dec_eq_val: "dec_eq a b \<longleftrightarrow> val a = val b"
proof -
  let ?e = "min (expo a) (expo b)"
  let ?x = "coef a * 10 ^ nat (expo a - ?e)"
  let ?y = "coef b * 10 ^ nat (expo b - ?e)"
  have "dec_eq a b \<longleftrightarrow> (of_int ?x :: rat) = of_int ?y"
    by (simp only: dec_eq_def Let_def of_int_eq_iff)
  also have "\<dots> \<longleftrightarrow> val a * 10 powi (- ?e) = val b * 10 powi (- ?e)"
    by (simp only: aligned[of ?e a] aligned[of ?e b] min.cobounded1 min.cobounded2)
  also have "\<dots> \<longleftrightarrow> val a = val b"
    using powi_pos[of "- ?e"] by simp
  finally show ?thesis .
qed

lemma val_exact_add: "val (exact_add a b) = val a + val b"
proof -
  let ?e = "min (expo a) (expo b)"
  have "val (exact_add a b) =
        (of_int (coef a * 10 ^ nat (expo a - ?e)) + of_int (coef b * 10 ^ nat (expo b - ?e))) * 10 powi ?e"
    by (simp add: exact_add_def Let_def val_def)
  also have "\<dots> = (val a * 10 powi (- ?e) + val b * 10 powi (- ?e)) * 10 powi ?e"
    by (simp only: aligned[of ?e a] aligned[of ?e b] min.cobounded1 min.cobounded2)
  also have "\<dots> = val a + val b"
    by (simp add: power_int_minus field_simps)
  finally show ?thesis .
qed

lemma ndigits_0: "ndigits 0 = 1"
  by (simp add: ndigits.simps)

lemma val_times10: "val (Dec (c * 10) (e - 1)) = val (Dec c e)"
  by (simp add: val_def power_int_diff)

lemma round_half_even_times10_one: "round_half_even (m * 10) (Suc 0) = m"
  by (simp add: round_half_even_def Let_def)

lemma ndigits_times10: "0 < m \<Longrightarrow> ndigits (m * 10) = Suc (ndigits m)"
proof -
  assume "0 < m"
  then have "\<not> m * 10 < 10" by simp
  then have "ndigits (m * 10) = Suc (ndigits (m * 10 div 10))"
    by (subst ndigits.simps) (simp only: if_False)
  then show ?thesis by simp
qed

lemma round_half_even_times10:
  assumes "0 < k"
  shows "round_half_even (m * 10) (Suc k) = round_half_even m k"
proof -
  obtain j where k: "k = Suc j"
    using assms by (cases k) auto
  have d: "m * 10 div 10 ^ Suc k = m div 10 ^ k"
    by simp
  have "m * 10 mod (10 * 10 ^ k) = 10 * (m mod 10 ^ k)"
    using mult_mod_right[of 10 m "10 ^ k"] by (simp only: mult.commute)
  then have r: "m * 10 mod 10 ^ Suc k = 10 * (m mod 10 ^ k)"
    by simp
  have h: "(5::int) * 10 ^ (Suc k - 1) = 10 * (5 * 10 ^ (k - 1))"
    by (simp add: k)
  show ?thesis
    unfolding round_half_even_def Let_def d r h
    by simp
qed

lemma dec_fix_times10: "val (dec_fix (Dec (c * 10) (e - 1))) = val (dec_fix (Dec c e))"
proof (cases "c = 0")
  case True
  then show ?thesis
    by (simp add: dec_fix_def Let_def ndigits_0 prec_def val_def)
next
  case False
  define m where "m = \<bar>c\<bar>"
  have pos: "0 < m"
    using False by (simp add: m_def)
  have a10: "\<bar>c * 10\<bar> = m * 10"
    by (simp add: m_def abs_mult)
  have n10: "ndigits (m * 10) = Suc (ndigits m)"
    by (rule ndigits_times10[OF pos])
  have s10: "sgn (c * 10) = sgn c"
    by (simp add: sgn_mult)
  have l: "dec_fix (Dec (c * 10) (e - 1)) =
      (if Suc (ndigits m) \<le> prec then Dec (c * 10) (e - 1)
       else if prec < ndigits (round_half_even (m * 10) (Suc (ndigits m) - prec))
       then Dec (sgn c * (round_half_even (m * 10) (Suc (ndigits m) - prec) div 10))
              (e - 1 + int (Suc (ndigits m) - prec) + 1)
       else Dec (sgn c * round_half_even (m * 10) (Suc (ndigits m) - prec))
              (e - 1 + int (Suc (ndigits m) - prec)))"
    by (simp only: dec_fix_def Let_def decimal.sel a10 n10 s10)
  have r: "dec_fix (Dec c e) =
      (if ndigits m \<le> prec then Dec c e
       else if prec < ndigits (round_half_even m (ndigits m - prec))
       then Dec (sgn c * (round_half_even m (ndigits m - prec) div 10))
              (e + int (ndigits m - prec) + 1)
       else Dec (sgn c * round_half_even m (ndigits m - prec))
              (e + int (ndigits m - prec)))"
    by (simp only: dec_fix_def Let_def decimal.sel m_def)
  consider (small) "Suc (ndigits m) \<le> prec"
    | (edge) "ndigits m = prec"
    | (big) "prec < ndigits m"
    by linarith
  then show ?thesis
  proof cases
    case small
    then show ?thesis
      unfolding l r using val_times10[of c e] by simp
  next
    case edge
    have "Suc (ndigits m) - prec = Suc 0"
      using edge by simp
    moreover have "sgn c * m = c"
      by (simp add: m_def mult_sgn_abs)
    ultimately show ?thesis
      unfolding l r using edge by (simp add: round_half_even_times10_one)
  next
    case big
    then have k: "0 < ndigits m - prec"
      by simp
    have sk: "Suc (ndigits m) - prec = Suc (ndigits m - prec)"
      using big by simp
    have ek: "e - 1 + int (Suc (ndigits m - prec)) = e + int (ndigits m - prec)"
      by simp
    show ?thesis
      unfolding l r sk round_half_even_times10[OF k] ek using big by simp
  qed
qed

lemma dec_fix_shift: "val (dec_fix (Dec (c * 10 ^ k) (e - int k))) = val (dec_fix (Dec c e))"
proof (induction k arbitrary: e)
  case 0
  then show ?case by simp
next
  case (Suc k)
  have c: "c * 10 ^ Suc k = (c * 10 ^ k) * 10"
    by simp
  have e: "e - int (Suc k) = (e - int k) - 1"
    by simp
  have "val (dec_fix (Dec (c * 10 ^ Suc k) (e - int (Suc k)))) =
        val (dec_fix (Dec ((c * 10 ^ k) * 10) ((e - int k) - 1)))"
    by (simp only: c e)
  also have "\<dots> = val (dec_fix (Dec (c * 10 ^ k) (e - int k)))"
    by (rule dec_fix_times10)
  also have "\<dots> = val (dec_fix (Dec c e))"
    by (rule Suc.IH)
  finally show ?case .
qed

lemma val_eq_shift:
  assumes "val x = val y" and "expo x \<le> expo y"
  shows "x = Dec (coef y * 10 ^ nat (expo y - expo x)) (expo y - int (nat (expo y - expo x)))"
proof -
  have "dec_eq x y" using assms(1) by (simp add: dec_eq_val)
  then have "coef x = coef y * 10 ^ nat (expo y - expo x)"
    using assms(2) by (simp add: dec_eq_def Let_def min_def)
  then show ?thesis
    using assms(2) by (cases x) simp
qed

lemma dec_fix_cong: "val x = val y \<Longrightarrow> val (dec_fix x) = val (dec_fix y)"
proof -
  have one: "val (dec_fix x) = val (dec_fix y)" if "val x = val y" "expo x \<le> expo y" for x y
  proof -
    have "val (dec_fix x) =
          val (dec_fix (Dec (coef y * 10 ^ nat (expo y - expo x)) (expo y - int (nat (expo y - expo x)))))"
      using val_eq_shift[OF that] by simp
    also have "\<dots> = val (dec_fix (Dec (coef y) (expo y)))"
      by (rule dec_fix_shift)
    finally show ?thesis by simp
  qed
  assume h: "val x = val y"
  show ?thesis
  proof (cases "expo x \<le> expo y")
    case True
    then show ?thesis using one[OF h] by simp
  next
    case False
    then have "expo y \<le> expo x" by simp
    then show ?thesis using one[of y x] h by simp
  qed
qed

lemma dec_add_cong:
  assumes "val a = val b" and "val x = val y"
  shows "val (dec_add a x) = val (dec_add b y)"
  unfolding dec_add_def by (rule dec_fix_cong) (simp add: val_exact_add assms)

text \<open>Rounding leaves a value of at most four significant digits as it is.\<close>

lemma dec_fix_fits: "fits d \<Longrightarrow> dec_fix d = d"
  by (simp add: fits_def dec_fix_def Let_def)

lemma val_copy_negate: "val (copy_negate d) = - val d"
  by (simp add: copy_negate_def val_def)

lemma fits_copy_negate: "fits (copy_negate d) = fits d"
  by (simp add: fits_def copy_negate_def)

lemma dec_fix_exact:
  assumes "fits d" and "val d = val x"
  shows "val (dec_fix x) = val x"
proof -
  have "val (dec_fix x) = val (dec_fix d)"
    by (rule dec_fix_cong) (simp add: assms(2))
  then show ?thesis
    using assms by (simp add: dec_fix_fits)
qed

lemma val_dec_add_exact:
  "fits d \<Longrightarrow> val d = val a + val b \<Longrightarrow> val (dec_add a b) = val a + val b"
  using dec_fix_exact[of d "exact_add a b"] by (simp add: dec_add_def val_exact_add)

lemma val_dec_sub_exact:
  "fits d \<Longrightarrow> val d = val a - val b \<Longrightarrow> val (dec_sub a b) = val a - val b"
  using val_dec_add_exact[of d a "copy_negate b"] by (simp add: dec_sub_def val_copy_negate)

lemma val_dec_neg_exact: "fits d \<Longrightarrow> val d = val x \<Longrightarrow> val (dec_neg x) = - val x"
  using dec_fix_exact[of "copy_negate d" "copy_negate x"]
  by (simp add: dec_neg_def fits_copy_negate val_copy_negate)

lemma val_consts:
  "val (Dec 0 (- 2)) = 0" "val (Dec 0 0) = 0" "val MIN_DEPOSIT = 50" "val MIN_WITHDRAWAL = 20"
  "val MAX_DAILY_WITHDRAWAL = 5000"
  by (simp_all add: val_def MIN_DEPOSIT_def MIN_WITHDRAWAL_def MAX_DAILY_WITHDRAWAL_def
      power_int_minus)

subsection \<open>Rounding does not cross a value of four digits\<close>

lemma ndigits_upper: "n < 10 ^ ndigits n"
proof (induction n rule: ndigits.induct)
  case (1 n)
  show ?case
  proof (cases "n < 10")
    case True
    then show ?thesis by (simp add: ndigits_small)
  next
    case False
    then have "n div 10 < 10 ^ ndigits (n div 10)"
      using "1.IH" by simp
    then have "n < 10 * 10 ^ ndigits (n div 10)"
      by linarith
    moreover have "ndigits n = Suc (ndigits (n div 10))"
      using False by (subst ndigits.simps) simp
    ultimately show ?thesis by simp
  qed
qed

lemma ndigits_lower: "0 < n \<Longrightarrow> 10 ^ (ndigits n - 1) \<le> n"
proof (induction n rule: ndigits.induct)
  case (1 n)
  show ?case
  proof (cases "n < 10")
    case True
    then show ?thesis using "1.prems" by (simp add: ndigits_small)
  next
    case False
    then have "10 ^ (ndigits (n div 10) - 1) \<le> n div 10"
      using "1.IH" by simp
    then have "10 * 10 ^ (ndigits (n div 10) - 1) \<le> n"
      by linarith
    moreover have "ndigits n = Suc (ndigits (n div 10))"
      using False by (subst ndigits.simps) simp
    moreover have "0 < ndigits (n div 10)"
      by (subst ndigits.simps) simp
    ultimately show ?thesis
      by (cases "ndigits (n div 10)") simp_all
  qed
qed

lemma ndigits_le: "n < 10 ^ k \<Longrightarrow> 0 < k \<Longrightarrow> ndigits n \<le> k"
proof (cases "0 < n")
  case True
  assume a: "n < 10 ^ k"
  have "(10::int) ^ (ndigits n - 1) < 10 ^ k"
    using ndigits_lower[OF True] a by linarith
  then have "ndigits n - 1 < k"
    by (simp add: power_strict_increasing_iff)
  then show ?thesis by linarith
next
  case False
  assume "0 < k"
  moreover have "ndigits n = 1"
    using False by (simp add: ndigits_small)
  ultimately show ?thesis by simp
qed

lemma round_half_even_nonneg: "0 \<le> c \<Longrightarrow> 0 \<le> round_half_even c k"
  by (simp add: round_half_even_def Let_def pos_imp_zdiv_nonneg_iff)

lemma round_half_even_le:
  assumes "c \<le> y * 10 ^ k"
  shows "round_half_even c k \<le> y"
proof -
  let ?q = "c div 10 ^ k" and ?r = "c mod 10 ^ k"
  have pos: "(0::int) < 10 ^ k" by simp
  have q: "?q \<le> y"
  proof -
    have "?q \<le> (y * 10 ^ k) div 10 ^ k"
      using assms pos by (intro zdiv_mono1) simp_all
    then show ?thesis by simp
  qed
  have up: "?q + 1 \<le> y" if "0 < ?r"
  proof (rule ccontr)
    assume "\<not> ?q + 1 \<le> y"
    then have "y \<le> ?q" by simp
    then have "y * 10 ^ k \<le> ?q * 10 ^ k"
      by (intro mult_right_mono) simp_all
    moreover have "c = ?q * 10 ^ k + ?r"
      using div_mult_mod_eq[of c "10 ^ k"] by simp
    ultimately show False
      using assms that by linarith
  qed
  have half: "(0::int) < 5 * 10 ^ (k - 1)" by simp
  show ?thesis
  proof (cases "5 * 10 ^ (k - 1) < ?r \<or> (?r = 5 * 10 ^ (k - 1) \<and> odd ?q)")
    case True
    then have "0 < ?r"
      using half by (elim disjE conjE) linarith+
    then have "?q + 1 \<le> y"
      by (rule up)
    then show ?thesis
      using True by (simp only: round_half_even_def Let_def if_True)
  next
    case False
    then show ?thesis
      using q by (simp only: round_half_even_def Let_def if_False)
  qed
qed

lemma round_half_even_upper: "0 \<le> c \<Longrightarrow> c < 10 ^ (k + p) \<Longrightarrow> round_half_even c k \<le> 10 ^ p"
proof (rule round_half_even_le)
  assume "c < 10 ^ (k + p)"
  then show "c \<le> 10 ^ p * 10 ^ k"
    by (simp add: power_add mult.commute)
qed

lemma powi_not_le: "\<not> (10::rat) powi e \<le> 0"
  using powi_pos[of e] by linarith

lemma powi_not_less: "\<not> (10::rat) powi e < 0"
  using powi_pos[of e] by linarith

lemma val_nonneg_iff: "0 \<le> val d \<longleftrightarrow> 0 \<le> coef d"
  by (auto simp add: val_def zero_le_mult_iff powi_not_le)

lemma val_pos_iff: "0 < val d \<longleftrightarrow> 0 < coef d"
  by (auto simp add: val_def zero_less_mult_iff powi_not_less)

lemma dec_fix_nonneg: "0 \<le> coef d \<Longrightarrow> 0 \<le> coef (dec_fix d)"
  using round_half_even_nonneg[of "\<bar>coef d\<bar>" "ndigits \<bar>coef d\<bar> - prec"]
  by (simp add: dec_fix_def Let_def sgn_if pos_imp_zdiv_nonneg_iff)

lemma fits_dec_fix: "fits (dec_fix d)"
proof (cases "ndigits \<bar>coef d\<bar> \<le> prec")
  case True
  then show ?thesis by (simp add: dec_fix_def fits_def Let_def)
next
  case False
  define m where "m = \<bar>coef d\<bar>"
  define k where "k = ndigits m - prec"
  define q where "q = round_half_even m k"
  have big: "prec < ndigits m"
    using False by (simp add: m_def)
  have m0: "0 \<le> m" by (simp add: m_def)
  have q0: "0 \<le> q"
    unfolding q_def using m0 by (rule round_half_even_nonneg)
  have "m < 10 ^ (k + prec)"
    using ndigits_upper[of m] big by (simp add: k_def)
  then have qle: "q \<le> 10 ^ prec"
    unfolding q_def using m0 by (intro round_half_even_upper)
  have c0: "coef d \<noteq> 0"
    using big by (auto simp add: m_def ndigits_0 prec_def)
  have sg: "\<bar>sgn (coef d) * x\<bar> = \<bar>x\<bar>" for x
    using c0 by (simp add: abs_mult)
  show ?thesis
  proof (cases "prec < ndigits q")
    case True
    have "q div 10 < 10 ^ prec"
      using qle by (simp add: prec_def)
    then have "ndigits (q div 10) \<le> prec"
      by (rule ndigits_le) (simp add: prec_def)
    moreover have "0 \<le> q div 10"
      using q0 by (simp add: pos_imp_zdiv_nonneg_iff)
    ultimately show ?thesis
      using False True
      by (simp add: dec_fix_def fits_def Let_def sg m_def[symmetric] k_def[symmetric] q_def[symmetric])
  next
    case F2: False
    then show ?thesis
      using False q0
      by (simp add: dec_fix_def fits_def Let_def sg m_def[symmetric] k_def[symmetric] q_def[symmetric])
  qed
qed

lemma val_dec_fix_upper:
  assumes "0 < c" and "prec < ndigits c"
  shows "val (dec_fix (Dec c e)) \<le>
         of_int (round_half_even c (ndigits c - prec)) * 10 powi (e + int (ndigits c - prec))"
proof -
  define k where "k = ndigits c - prec"
  define q where "q = round_half_even c k"
  have ac: "\<bar>c\<bar> = c" and sc: "sgn c = 1"
    using assms(1) by simp_all
  have q0: "0 \<le> q"
    unfolding q_def using assms(1) by (intro round_half_even_nonneg) simp
  show ?thesis
  proof (cases "prec < ndigits q")
    case True
    have fx: "dec_fix (Dec c e) = Dec (q div 10) (e + int k + 1)"
      using assms(2) True by (simp add: dec_fix_def Let_def ac sc k_def[symmetric] q_def[symmetric])
    have "(of_int (q div 10) :: rat) * 10 powi (e + int k + 1) =
          of_int (q div 10 * 10) * 10 powi (e + int k)"
      by (simp add: power_int_add)
    also have "\<dots> \<le> of_int q * 10 powi (e + int k)"
    proof (rule mult_right_mono)
      have "q div 10 * 10 \<le> q"
        using div_mult_mod_eq[of q 10] pos_mod_sign[of 10 q] by linarith
      then show "(of_int (q div 10 * 10) :: rat) \<le> of_int q"
        by (simp only: of_int_le_iff)
      show "(0::rat) \<le> 10 powi (e + int k)"
        using powi_pos[of "e + int k"] by simp
    qed
    finally show ?thesis
      by (simp add: fx val_def k_def[symmetric] q_def[symmetric])
  next
    case False
    have fx: "dec_fix (Dec c e) = Dec q (e + int k)"
      using assms(2) False by (simp add: dec_fix_def Let_def ac sc k_def[symmetric] q_def[symmetric])
    show ?thesis
      by (simp add: fx val_def k_def[symmetric] q_def[symmetric])
  qed
qed

text \<open>
  Rounding a non-negative value cannot carry it past a value of at most \<open>prec\<close> digits that
  lies above it.
\<close>

lemma dec_fix_no_cross:
  assumes "fits d" and "0 \<le> val x" and "val x \<le> val d"
  shows "val (dec_fix x) \<le> val d"
proof (cases "ndigits \<bar>coef x\<bar> \<le> prec")
  case True
  then show ?thesis
    using assms(3) by (simp add: dec_fix_def Let_def)
next
  case False
  obtain c e where x: "x = Dec c e" by (cases x)
  obtain cd ed where d: "d = Dec cd ed" by (cases d)
  have c0: "0 \<le> c"
    using assms(2) by (simp add: val_nonneg_iff x)
  have big: "prec < ndigits c"
    using False c0 by (simp add: x)
  have cpos: "0 < c"
    using big c0 by (cases "c = 0") (simp_all add: ndigits_0 prec_def)
  define n where "n = ndigits c"
  define k where "k = n - prec"
  have nk: "int n = int k + int prec"
    using big by (simp add: k_def n_def)
  have cd_lt: "\<bar>cd\<bar> < 10 ^ prec"
  proof -
    have "\<bar>cd\<bar> < 10 ^ ndigits \<bar>cd\<bar>" by (rule ndigits_upper)
    also have "\<dots> \<le> 10 ^ prec"
      using assms(1) by (intro power_increasing) (simp_all add: fits_def d)
    finally show ?thesis .
  qed
  have lowx: "(10::rat) powi (int n - 1 + e) \<le> val x"
  proof -
    have "(10::int) ^ (n - 1) \<le> c"
      unfolding n_def using cpos by (rule ndigits_lower)
    then have "(of_int (10 ^ (n - 1)) :: rat) \<le> of_int c"
      by (simp only: of_int_le_iff)
    then have "(10::rat) ^ (n - 1) * 10 powi e \<le> of_int c * 10 powi e"
      using powi_pos[of e] by (intro mult_right_mono) simp_all
    moreover have "(10::rat) powi (int n - 1 + e) = 10 ^ (n - 1) * 10 powi e"
    proof -
      have "0 < n" using big by (simp add: n_def)
      then obtain j where j: "n = Suc j" by (cases n) simp_all
      have "(10::rat) powi (int j + e) = 10 ^ j * 10 powi e"
        by (simp add: power_int_add)
      moreover have "int n - 1 + e = int j + e" by (simp add: j)
      moreover have "n - 1 = j" by (simp add: j)
      ultimately show ?thesis by (simp only:)
    qed
    ultimately show ?thesis by (simp add: val_def x)
  qed
  have upd: "val d < 10 powi (int prec + ed)"
  proof -
    have "cd < 10 ^ prec"
      using cd_lt by linarith
    then have "(of_int cd :: rat) < of_int (10 ^ prec)"
      by (simp only: of_int_less_iff)
    then have "of_int cd * 10 powi ed < (10::rat) ^ prec * 10 powi ed"
      using powi_pos[of ed] by (intro mult_strict_right_mono) simp_all
    then show ?thesis by (simp add: val_def d power_int_add)
  qed
  have ek: "e + int k \<le> ed"
  proof (rule ccontr)
    assume "\<not> e + int k \<le> ed"
    then have "int prec + ed \<le> int n - 1 + e"
      using nk by linarith
    then have "(10::rat) powi (int prec + ed) \<le> 10 powi (int n - 1 + e)"
      by (intro power_int_increasing) simp_all
    then show False
      using lowx upd assms(3) by linarith
  qed
  define y where "y = cd * 10 ^ nat (ed - e - int k)"
  define j where "j = nat (ed - e - int k)"
  have edj: "ed = int j + (e + int k)"
    using ek by (simp add: j_def)
  have pj: "(10::rat) powi (int j + (e + int k)) = 10 ^ j * 10 powi (e + int k)"
    by (simp add: power_int_add)
  have vd: "val d = of_int y * 10 powi (e + int k)"
  proof -
    have "val d = of_int cd * 10 powi (int j + (e + int k))"
      using edj by (simp add: val_def d)
    also have "\<dots> = of_int cd * (10 ^ j * 10 powi (e + int k))"
      by (simp only: pj)
    also have "\<dots> = of_int y * 10 powi (e + int k)"
      by (simp add: y_def j_def)
    finally show ?thesis .
  qed
  have pk: "(10::rat) powi (e + int k) = 10 ^ k * 10 powi e"
    by (simp add: power_int_add)
  have cy: "c \<le> y * 10 ^ k"
  proof -
    have "of_int c * 10 powi e \<le> of_int y * ((10::rat) ^ k * 10 powi e)"
      using assms(3) unfolding vd pk by (simp add: val_def x)
    also have "\<dots> = of_int (y * 10 ^ k) * 10 powi e"
      by simp
    finally have "(of_int c :: rat) \<le> of_int (y * 10 ^ k)"
      using powi_pos[of e] by (simp only: mult_le_cancel_right_pos)
    then show ?thesis by (simp only: of_int_le_iff)
  qed
  have "round_half_even c k \<le> y"
    using cy by (rule round_half_even_le)
  then have "(of_int (round_half_even c k) :: rat) \<le> of_int y"
    by (simp only: of_int_le_iff)
  then have "of_int (round_half_even c k) * 10 powi (e + int k) \<le> of_int y * (10::rat) powi (e + int k)"
    using powi_pos[of "e + int k"] by (intro mult_right_mono) simp_all
  moreover have "val (dec_fix x) \<le> of_int (round_half_even c k) * 10 powi (e + int k)"
    using val_dec_fix_upper[OF cpos big, of e] by (simp add: x k_def n_def)
  ultimately show ?thesis
    using vd by linarith
qed

lemma val_zero: "val (Dec 0 e) = 0"
  by (simp add: val_def)

lemma dec_div_pos:
  assumes "0 < coef a" and "0 < coef b"
  shows "\<exists>m. dec_div a b = Inr m \<and> 0 \<le> coef m"
proof -
  define shift where "shift = int (ndigits \<bar>coef b\<bar>) - int (ndigits \<bar>coef a\<bar>) + int prec + 1"
  define num where "num = (if 0 \<le> shift then \<bar>coef a\<bar> * 10 ^ nat shift else \<bar>coef a\<bar>)"
  define den where "den = (if 0 \<le> shift then \<bar>coef b\<bar> else \<bar>coef b\<bar> * 10 ^ nat (- shift))"
  define q where "q = num div den"
  define q' where "q' = (if num mod den \<noteq> 0 \<and> q mod 5 = 0 then q + 1 else q)"
  have n0: "0 \<le> num" by (simp add: num_def)
  have d0: "0 < den" using assms(2) by (simp add: den_def)
  have "0 \<le> q" unfolding q_def using n0 d0 by (simp add: pos_imp_zdiv_nonneg_iff)
  then have q0: "0 \<le> q'" by (simp add: q'_def)
  have na: "coef a \<noteq> 0" and nb: "coef b \<noteq> 0"
    using assms by simp_all
  have sg: "sgn (coef a) * sgn (coef b) * q' = q'"
    using assms by simp
  have "dec_div a b = Inr (dec_fix (Dec (sgn (coef a) * sgn (coef b) * q') (expo a - expo b - shift)))"
    by (simp only: dec_div_def Let_def na nb if_False shift_def num_def den_def q_def q'_def)
  then have "dec_div a b = Inr (dec_fix (Dec q' (expo a - expo b - shift)))"
    by (simp only: sg)
  moreover have "0 \<le> coef (dec_fix (Dec q' (expo a - expo b - shift)))"
    by (rule dec_fix_nonneg) (simp add: q0)
  ultimately show ?thesis by simp
qed

lemma fix_between:
  assumes "val (dec_fix r) = val r" and "0 \<le> val x" and "val x \<le> val r"
  shows "0 \<le> val (dec_fix x) \<and> val (dec_fix x) \<le> val r"
proof -
  have "0 \<le> coef x" using assms(2) by (simp only: val_nonneg_iff)
  then have "0 \<le> coef (dec_fix x)" by (rule dec_fix_nonneg)
  then have a: "0 \<le> val (dec_fix x)" by (simp only: val_nonneg_iff)
  have "val x \<le> val (dec_fix r)" using assms(1,3) by simp
  with fits_dec_fix[of r] assms(2) have "val (dec_fix x) \<le> val (dec_fix r)"
    by (intro dec_fix_no_cross)
  then have b: "val (dec_fix x) \<le> val r" using assms(1) by simp
  from a b show ?thesis by simp
qed

lemma sub_between:
  assumes "val (dec_fix r) = val r" and "0 \<le> val b" and "val b \<le> val a" and "val a \<le> val r"
  shows "0 \<le> val (dec_sub a b) \<and> val (dec_sub a b) \<le> val r"
proof -
  have v: "val (exact_add a (copy_negate b)) = val a - val b"
    by (simp add: val_exact_add val_copy_negate)
  have "0 \<le> val (exact_add a (copy_negate b))" "val (exact_add a (copy_negate b)) \<le> val r"
    using assms(2-4) unfolding v by linarith+
  with assms(1) show ?thesis
    unfolding dec_sub_def dec_add_def by (intro fix_between)
qed

lemma four_digits_fix: "four_digits (dec_fix x)"
  using dec_fix_fits[OF fits_dec_fix[of x]] by (simp add: four_digits_def dec_eq_val)

section \<open>Evaluating concrete inputs\<close>

lemma ndigits_numeral:
  "ndigits (numeral k) = (if numeral k < (10::int) then 1 else Suc (ndigits (numeral k div 10)))"
  by (rule ndigits.simps)

lemma ndigits_1: "ndigits 1 = 1"
  by (simp add: ndigits.simps)

lemmas fix_eval = dec_fix_def round_half_even_def prec_def Let_def ndigits_numeral ndigits_0 ndigits_1

lemmas dec_eval = dec_add_def dec_sub_def dec_neg_def dec_abs_def dec_mul_def dec_div_def
  exact_add_def copy_negate_def dec_le_def dec_lt_def dec_eq_def dec_max_def quantize_def
  rescale_def py_sum_def fix_eval

lemmas acct_eval = deposit_def withdraw_def transfer_def reverse_def validate_amount_def
  Transaction_init_def set_balance_def append_transaction_def MIN_DEPOSIT_def MIN_WITHDRAWAL_def
  MAX_DAILY_WITHDRAWAL_def Account_init_def fresh_store_def ledger_def applied_ledger_def

lemma default_loan_init:
  "Loan_init (Dec 1000000 (- 2)) LOAN_INTEREST_RATE LOAN_TERM_YEARS = Inr default_loan"
  by (simp add: Loan_init_def LOAN_INTEREST_RATE_def LOAN_TERM_YEARS_def dec_eval default_loan_def)

lemma cents_loan_init:
  "Loan_init (Dec 1234567 (- 2)) LOAN_INTEREST_RATE LOAN_TERM_YEARS = Inr cents_loan"
  by (simp add: Loan_init_def LOAN_INTEREST_RATE_def LOAN_TERM_YEARS_def dec_eval cents_loan_def)

lemma four_digits_10000: "four_digits (Dec 1000000 (- 2))"
  by (simp add: four_digits_def dec_eval)

lemma deposit_1000: "deposit 0 (Dec 100000 (- 2)) fresh_store = (Inr 0, funded_store)"
  by (simp add: acct_eval dec_eval funded_store_def)

text \<open>The monthly rate of 8 percent a year, and the growth factor over 60 months.\<close>

lemma monthly_rate_8: "dec_div (Dec 8 (- 2)) (Dec 12 0) = Inr (Dec 6667 (- 6))"
  by (simp add: dec_eval)

lemma one_plus_rate: "dec_add (Dec 1 0) (Dec 6667 (- 6)) = Dec 1007 (- 3)"
  by (simp add: dec_eval)

lemma factor_60: "dec_pow (Dec 1007 (- 3)) 60 = Dec 1520 (- 3)"
proof -
  have n: "ndigits (1519736286656742250957772870052909283492295046659576988651337481714020759549180852254490040427185361462128564254123791739388505633525698528067446721006559468645274686620773563416001) = 181"
    by (rule ndigits_numeralI) simp_all
  have r: "round_half_even (1519736286656742250957772870052909283492295046659576988651337481714020759549180852254490040427185361462128564254123791739388505633525698528067446721006559468645274686620773563416001) 177 = 1520"
    by (simp add: round_half_even_def Let_def)
  have n4: "ndigits 1520 = 4"
    by (simp add: ndigits_numeral ndigits_1)
  have "dec_pow (Dec 1007 (- 3)) 60 = dec_fix (Dec (1519736286656742250957772870052909283492295046659576988651337481714020759549180852254490040427185361462128564254123791739388505633525698528067446721006559468645274686620773563416001) (- 180))"
    by (simp add: dec_pow_def)
  also have "\<dots> = Dec 1520 (- 3)"
    by (simp add: dec_fix_def n prec_def r n4 Let_def)
  finally show ?thesis .
qed

section \<open>Transaction.reverse\<close>

lemma reverse_completed:
  assumes "self < length (txns s)" and "status (txns s ! self) = ''completed''"
  shows "fst (reverse self s) = Inr (length (txns s))"
    and "status (txns (snd (reverse self s)) ! self) = ''reversed''"
    and "self < length (txns (snd (reverse self s)))"
  using assms
  by (simp_all add: reverse_def Transaction_init_def set_balance_def append_transaction_def Let_def
      nth_append)

lemma reverse_not_completed:
  assumes "status (txns s ! self) \<noteq> ''completed''"
  shows "reverse self s = (Inl (ValueError ''Cannot reverse a non-completed transaction''), s)"
  using assms by (simp add: reverse_def Let_def)

text \<open>
  C8. \<^verbatim>\<open>reverse()\<close> fails with the ValueError "Cannot reverse a non-completed transaction"
  (the spec's NotCompleted) exactly when the status is not \<^verbatim>\<open>completed\<close>, and then leaves
  the store as it was. On a completed transaction it succeeds and sets the status to
  \<^verbatim>\<open>reversed\<close>, so that a second \<^verbatim>\<open>reverse()\<close> on the same transaction fails with that error
  and leaves the store unchanged.
\<close>

theorem reverse_once_only:
  assumes "self < length (txns s)"
  shows "(fst (reverse self s) = Inl (ValueError ''Cannot reverse a non-completed transaction'')
            \<longleftrightarrow> status (txns s ! self) \<noteq> ''completed'') \<and>
         (status (txns s ! self) \<noteq> ''completed'' \<longrightarrow> snd (reverse self s) = s) \<and>
         (status (txns s ! self) = ''completed'' \<longrightarrow>
            fst (reverse self s) = Inr (length (txns s)) \<and>
            status (txns (snd (reverse self s)) ! self) = ''reversed'' \<and>
            reverse self (snd (reverse self s)) =
              (Inl (ValueError ''Cannot reverse a non-completed transaction''),
               snd (reverse self s)))"
proof (cases "status (txns s ! self) = ''completed''")
  case True
  have "status (txns (snd (reverse self s)) ! self) \<noteq> ''completed''"
    using reverse_completed(2)[OF assms True] by simp
  then have "reverse self (snd (reverse self s)) =
      (Inl (ValueError ''Cannot reverse a non-completed transaction''), snd (reverse self s))"
    by (rule reverse_not_completed)
  then show ?thesis
    using True reverse_completed[OF assms True] by simp
next
  case False
  then show ?thesis
    using reverse_not_completed[OF False] by simp
qed

theorem reverse_once_only_witness:
  "0 < length (txns funded_store) \<and> status (txns funded_store ! 0) = ''completed'' \<and>
   fst (reverse 0 funded_store) = Inr 1 \<and>
   status (txns (snd (reverse 0 funded_store)) ! 0) = ''reversed'' \<and>
   reverse 0 (snd (reverse 0 funded_store)) =
     (Inl (ValueError ''Cannot reverse a non-completed transaction''),
      snd (reverse 0 funded_store))"
  using reverse_once_only[of 0 funded_store] by (simp add: funded_store_def)

text \<open>
  C3. Reversing the deposit of 1000.00 that \<open>funded_store\<close> holds appends a reversal of
  amount -1000 and marks the deposit \<^verbatim>\<open>reversed\<close>, but \<^verbatim>\<open>self.account.balance += self.amount\<close>
  adds the amount a second time: the balance goes from 1000 to 2000, where undoing the
  deposit would leave 0.
\<close>

theorem reverse_adds_amount_again:
  "balance (accounts funded_store 0) = Dec 1000 0 \<and>
   balance (accounts (snd (reverse 0 funded_store)) 0) = Dec 2000 0 \<and>
   amount (txns (snd (reverse 0 funded_store)) ! 1) = Dec (- 1000) 0 \<and>
   status (txns (snd (reverse 0 funded_store)) ! 0) = ''reversed''"
  by (simp add: acct_eval dec_eval funded_store_def)

section \<open>Account.transfer\<close>

text \<open>
  C2. A transfer of 30.00 passes every check of \<^verbatim>\<open>withdraw\<close> (at least 20.00) and then
  fails in \<^verbatim>\<open>recipient.deposit\<close> (below 50.00): the call raises, the sender has been
  debited (balance 1000 to 970.0, a withdrawal appended) and the recipient is unchanged.
\<close>

theorem transfer_below_min_deposit:
  "fst (transfer 0 (Dec 3000 (- 2)) 1 funded_store) =
     Inl (InvalidAmountError ''Minimum deposit is 50.00'') \<and>
   balance (accounts funded_store 0) = Dec 1000 0 \<and>
   balance (accounts (snd (transfer 0 (Dec 3000 (- 2)) 1 funded_store)) 0) = Dec 9700 (- 1) \<and>
   transactions (accounts (snd (transfer 0 (Dec 3000 (- 2)) 1 funded_store)) 0) = [0, 1] \<and>
   accounts (snd (transfer 0 (Dec 3000 (- 2)) 1 funded_store)) 1 = accounts funded_store 1"
  by (simp add: acct_eval dec_eval funded_store_def)

section \<open>Loans\<close>

text \<open>
  C4. For the loan of 10000.00 at 8 percent over 60 months the context's four digits
  give a monthly rate of 0.006667, a factor of 1.520 and a payment of 194.8, and
  \<^verbatim>\<open>quantize(Decimal('0.01'))\<close> of 194.8 needs five digits: \<^verbatim>\<open>calculate_monthly_payment\<close> raises
  InvalidOperation and returns no amount.
\<close>

theorem monthly_payment_raises: "calculate_monthly_payment default_loan = Inl InvalidOperation"
proof -
  have q: "dec_div (dec_mul (dec_mul (Dec 1000000 (- 2)) (Dec 6667 (- 6))) (Dec 1520 (- 3)))
             (dec_sub (Dec 1520 (- 3)) (Dec 1 0)) = Inr (Dec 1948 (- 1))"
    by (simp add: dec_eval)
  have z: "quantize (Dec 1948 (- 1)) (- 2) = Inl InvalidOperation"
    by (simp add: dec_eval)
  show ?thesis
    by (simp add: calculate_monthly_payment_def default_loan_def monthly_rate_8 one_plus_rate
        factor_60 q z)
qed

text \<open>
  C9. \<^verbatim>\<open>generate_amortization_schedule\<close> calls \<^verbatim>\<open>calculate_monthly_payment\<close> first, so for the
  same loan it raises InvalidOperation before it builds a row.
\<close>

theorem schedule_raises: "generate_amortization_schedule default_loan = Inl InvalidOperation"
  by (simp add: generate_amortization_schedule_def monthly_payment_raises)

text \<open>
  C5. A payment of 20000.00 on the loan of 10000.00 is capped to 10000.00, of which 66.67
  is booked as interest and only 9933 as principal: the loan is left with 67.00 and
  stays active.
\<close>

theorem overpayment_leaves_loan_open:
  "make_payment (Dec 2000000 (- 2)) default_loan =
     (Inr \<lparr>pay_amount = Dec 1000000 (- 2), principal = Dec 9933 0, interest = Dec 6667 (- 2)\<rparr>,
      default_loan\<lparr>remaining_amount := Dec 6700 (- 2),
        payments := [\<lparr>pay_amount = Dec 1000000 (- 2), principal = Dec 9933 0,
                      interest = Dec 6667 (- 2)\<rparr>]\<rparr>)"
proof -
  have pos: "\<not> dec_le (Dec 2000000 (- 2)) (Dec 0 0)"
    by (simp add: dec_eval)
  have cap: "dec_lt (Dec 1000000 (- 2)) (Dec 2000000 (- 2))"
    by (simp add: dec_eval)
  have due: "dec_mul (Dec 1000000 (- 2)) (Dec 6667 (- 6)) = Dec 6667 (- 2)"
    by (simp add: dec_eval)
  have more: "\<not> dec_le (Dec 1000000 (- 2)) (Dec 6667 (- 2))"
    by (simp add: dec_eval)
  have princ: "dec_sub (Dec 1000000 (- 2)) (Dec 6667 (- 2)) = Dec 9933 0"
    by (simp add: dec_eval)
  have chk: "dec_lt (dec_abs (dec_sub (dec_add (Dec 9933 0) (Dec 6667 (- 2))) (Dec 1000000 (- 2))))
               (Dec 1 (- 2))"
    by (simp add: dec_eval)
  have rem: "dec_sub (Dec 1000000 (- 2)) (Dec 9933 0) = Dec 6700 (- 2)"
    by (simp add: dec_eval)
  have left: "\<not> dec_le (Dec 6700 (- 2)) (Dec 0 0)"
    by (simp add: dec_eval)
  show ?thesis
    by (simp add: make_payment_def LoanPayment_init_def default_loan_def Let_def monthly_rate_8
        pos cap due more princ chk rem left)
qed

section \<open>Payments on a loan\<close>

lemma cents_loan_payment:
  "make_payment (Dec 50 0) cents_loan =
     (Inr \<lparr>pay_amount = Dec 50 0, principal = Dec 0 0, interest = Dec 50 0\<rparr>,
      cents_loan\<lparr>remaining_amount := Dec 1235 1,
        payments := [\<lparr>pay_amount = Dec 50 0, principal = Dec 0 0, interest = Dec 50 0\<rparr>]\<rparr>)"
proof -
  have pos: "\<not> dec_le (Dec 50 0) (Dec 0 0)"
    by (simp add: dec_eval)
  have cap: "\<not> dec_lt (Dec 1234567 (- 2)) (Dec 50 0)"
    by (simp add: dec_eval)
  have due: "dec_mul (Dec 1234567 (- 2)) (Dec 6667 (- 6)) = Dec 8231 (- 2)"
    by (simp add: dec_eval)
  have less: "dec_le (Dec 50 0) (Dec 8231 (- 2))"
    by (simp add: dec_eval)
  have chk: "dec_lt (dec_abs (dec_sub (dec_add (Dec 0 0) (Dec 50 0)) (Dec 50 0))) (Dec 1 (- 2))"
    by (simp add: dec_eval)
  have rem: "dec_sub (Dec 1234567 (- 2)) (Dec 0 0) = Dec 1235 1"
    by (simp add: dec_eval)
  have left: "\<not> dec_le (Dec 1235 1) (Dec 0 0)"
    by (simp add: dec_eval)
  show ?thesis
    by (simp add: make_payment_def LoanPayment_init_def cents_loan_def Let_def monthly_rate_8
        pos cap due less chk rem left)
qed

text \<open>
  C6, as the claim states it, fails where the context rounds: a loan of 12345.67 at the
  default rate owes 82.31 of interest, so \<^verbatim>\<open>make_payment(Decimal('50'))\<close> books 50 as interest
  and 0 as principal, and \<^verbatim>\<open>remaining_amount -= principal\<close> rounds 12345.67 to four digits:
  the remaining amount grows to 12350.
\<close>

theorem payment_raises_remaining_amount:
  "Loan_init (Dec 1234567 (- 2)) LOAN_INTEREST_RATE LOAN_TERM_YEARS = Inr cents_loan \<and>
   remaining_amount cents_loan = Dec 1234567 (- 2) \<and>
   fst (make_payment (Dec 50 0) cents_loan) =
     Inr \<lparr>pay_amount = Dec 50 0, principal = Dec 0 0, interest = Dec 50 0\<rparr> \<and>
   remaining_amount (snd (make_payment (Dec 50 0) cents_loan)) = Dec 1235 1 \<and>
   dec_lt (Dec 1234567 (- 2)) (Dec 1235 1) \<and>
   \<not> non_increasing (observations [Dec 50 0] cents_loan)"
proof -
  have gt: "dec_lt (Dec 1234567 (- 2)) (Dec 1235 1)"
    by (simp add: dec_eval)
  have r: "remaining_amount cents_loan = Dec 1234567 (- 2)"
    by (simp add: cents_loan_def)
  have r': "remaining_amount (snd (make_payment (Dec 50 0) cents_loan)) = Dec 1235 1"
    by (simp add: cents_loan_payment)
  have f: "fst (make_payment (Dec 50 0) cents_loan) =
             Inr \<lparr>pay_amount = Dec 50 0, principal = Dec 0 0, interest = Dec 50 0\<rparr>"
    by (simp add: cents_loan_payment)
  have "\<not> dec_le (Dec 1235 1) (Dec 1234567 (- 2))"
    by (simp add: dec_eval)
  then have n: "\<not> non_increasing (observations [Dec 50 0] cents_loan)"
    by (simp add: r r')
  show ?thesis
    by (intro conjI cents_loan_init r f r' gt n)
qed

text \<open>
  A call of \<^verbatim>\<open>make_payment\<close> keeps the invariant and does not raise the remaining amount,
  whether it returns a payment or raises.
\<close>

lemma make_payment_step:
  assumes "loan_inv l"
  shows "loan_inv (snd (make_payment a l)) \<and>
         dec_le (remaining_amount (snd (make_payment a l))) (remaining_amount l)"
proof -
  define rem where "rem = remaining_amount l"
  have fd: "val (dec_fix rem) = val rem" and r0: "0 \<le> val rem"
    and rate: "dec_lt (Dec 0 0) (interest_rate l)"
    and act: "loan_is_active l \<longleftrightarrow> 0 < val rem"
    using assms by (simp_all add: loan_inv_def four_digits_def dec_eq_val dec_le_val dec_lt_val val_zero rem_def)
  have same: "loan_inv l \<and> dec_le (remaining_amount l) (remaining_amount l)"
    using assms by (simp add: dec_le_val)
  have "0 < coef (interest_rate l)"
    using rate by (simp add: dec_lt_val val_zero val_pos_iff)
  then have "\<exists>m. dec_div (interest_rate l) (Dec 12 0) = Inr m \<and> 0 \<le> coef m"
    by (rule dec_div_pos) simp
  then obtain mr where mr: "dec_div (interest_rate l) (Dec 12 0) = Inr mr" and mr0: "0 \<le> coef mr"
    by blast
  define amt where "amt = (if dec_lt rem a then rem else a)"
  define due where "due = dec_mul rem mr"
  define princ where "princ = (if dec_le amt due then Dec 0 0 else dec_sub amt due)"
  define intr where "intr = (if dec_le amt due then amt else due)"
  define rem' where "rem' = dec_sub rem princ"
  have mpu: "make_payment a l =
      (case LoanPayment_init amt princ intr of
         Inl e \<Rightarrow> (Inl e, l)
       | Inr p \<Rightarrow>
           (Inr p,
            if dec_le rem' (Dec 0 0)
            then l\<lparr>remaining_amount := rem', payments := payments l @ [p], loan_is_active := False\<rparr>
            else l\<lparr>remaining_amount := rem', payments := payments l @ [p]\<rparr>))"
    if "loan_is_active l" and "\<not> dec_le a (Dec 0 0)"
    unfolding make_payment_def rem'_def princ_def intr_def due_def amt_def rem_def
    by (simp add: that mr Let_def cong: sum.case_cong if_cong)
  show ?thesis
  proof (cases "loan_is_active l \<and> \<not> dec_le a (Dec 0 0) \<and> (\<exists>p. LoanPayment_init amt princ intr = Inr p)")
    case False
    have "snd (make_payment a l) = l"
    proof (cases "loan_is_active l \<and> \<not> dec_le a (Dec 0 0)")
      case True
      with False obtain e where e: "LoanPayment_init amt princ intr = Inl e"
        by (cases "LoanPayment_init amt princ intr") auto
      have "make_payment a l = (Inl e, l)"
        using True by (simp only: mpu[OF conjunct1[OF True] conjunct2[OF True]] e sum.case)
      then show ?thesis by simp
    next
      case False
      then show ?thesis by (auto simp add: make_payment_def)
    qed
    then show ?thesis using same by simp
  next
    case True
    then obtain p where p: "LoanPayment_init amt princ intr = Inr p" by blast
    have active: "loan_is_active l" and pos: "\<not> dec_le a (Dec 0 0)"
      using True by simp_all
    define l1 where "l1 = l\<lparr>remaining_amount := rem', payments := payments l @ [p]\<rparr>"
    have "make_payment a l =
            (Inr p,
             if dec_le rem' (Dec 0 0)
             then l\<lparr>remaining_amount := rem', payments := payments l @ [p], loan_is_active := False\<rparr>
             else l\<lparr>remaining_amount := rem', payments := payments l @ [p]\<rparr>)"
      by (simp only: mpu[OF active pos] p sum.case)
    then have mp: "snd (make_payment a l) = (if dec_le rem' (Dec 0 0) then l1\<lparr>loan_is_active := False\<rparr> else l1)"
      by (simp add: l1_def)
    have amt_le: "val amt \<le> val rem"
      by (simp add: amt_def dec_lt_val)
    have due0: "0 \<le> val due"
    proof -
      have "0 \<le> coef rem" using r0 by (simp only: val_nonneg_iff)
      then have "0 \<le> coef (Dec (coef rem * coef mr) (expo rem + expo mr))"
        using mr0 by simp
      then have "0 \<le> coef (dec_fix (Dec (coef rem * coef mr) (expo rem + expo mr)))"
        by (rule dec_fix_nonneg)
      then show ?thesis
        by (simp only: due_def dec_mul_def val_nonneg_iff)
    qed
    have pr: "0 \<le> val princ \<and> val princ \<le> val rem"
    proof (cases "dec_le amt due")
      case True
      then show ?thesis using r0 by (simp add: princ_def val_zero)
    next
      case False
      then have "val due \<le> val amt" by (simp add: dec_le_val)
      with fd due0 have "0 \<le> val (dec_sub amt due) \<and> val (dec_sub amt due) \<le> val rem"
        using amt_le by (rule sub_between)
      then show ?thesis using False by (simp add: princ_def)
    qed
    have rb: "0 \<le> val rem' \<and> val rem' \<le> val rem"
      unfolding rem'_def using fd pr by (intro sub_between) simp_all
    have fr: "four_digits rem'"
      unfolding rem'_def dec_sub_def dec_add_def by (rule four_digits_fix)
    have rem_new: "remaining_amount (snd (make_payment a l)) = rem'"
      by (simp add: mp l1_def)
    have rate_new: "interest_rate (snd (make_payment a l)) = interest_rate l"
      by (simp add: mp l1_def)
    have act_new: "loan_is_active (snd (make_payment a l)) \<longleftrightarrow> 0 < val rem'"
      using active by (simp add: mp l1_def dec_le_val val_zero not_le)
    have "loan_inv (snd (make_payment a l))"
      unfolding loan_inv_def rem_new rate_new act_new
      using fr rb rate by (simp add: dec_le_val dec_lt_val val_zero)
    moreover have "dec_le (remaining_amount (snd (make_payment a l))) (remaining_amount l)"
      unfolding rem_new using rb by (simp add: dec_le_val rem_def)
    ultimately show ?thesis by simp
  qed
qed

lemma loan_inv_obs_ok: "loan_inv l \<Longrightarrow> obs_ok l"
  by (auto simp add: loan_inv_def obs_ok_def dec_le_val dec_lt_val dec_eq_val val_zero)

lemma observations_head: "\<exists>rest. observations as l = l # rest"
  by (cases as) simp_all

lemma observations_inv:
  "loan_inv l \<Longrightarrow> list_all obs_ok (observations as l) \<and> non_increasing (observations as l)"
proof (induction as arbitrary: l)
  case Nil
  then show ?case by (simp add: loan_inv_obs_ok)
next
  case (Cons a as)
  let ?l' = "snd (make_payment a l)"
  have st: "loan_inv ?l'" and le: "dec_le (remaining_amount ?l') (remaining_amount l)"
    using make_payment_step[OF Cons.prems, of a] by simp_all
  have ih: "list_all obs_ok (observations as ?l')" "non_increasing (observations as ?l')"
    using Cons.IH[OF st] by simp_all
  obtain rest where rest: "observations as ?l' = ?l' # rest"
    using observations_head[of as ?l'] by blast
  have "non_increasing (l # ?l' # rest)"
    using le ih(2) by (simp add: rest)
  then show ?case
    using ih(1) Cons.prems by (simp add: rest loan_inv_obs_ok)
qed

lemma Loan_init_inv:
  assumes "Loan_init amt rate years = Inr l" and "four_digits amt"
  shows "loan_inv l"
proof -
  have a: "dec_lt (Dec 0 0) amt" and r: "dec_lt (Dec 0 0) rate"
    and l: "l = \<lparr>original_amount = amt, remaining_amount = amt, interest_rate = rate,
                term_months = nat (years * 12), payments = [], loan_is_active = True\<rparr>"
    using assms(1) by (auto simp add: Loan_init_def split: if_splits)
  show ?thesis
    using a r assms(2) by (simp add: l loan_inv_def dec_le_val dec_lt_val)
qed

text \<open>
  C6, amended. For every Loan that the constructor accepts (a positive amount, a positive
  interest rate, a term of at least one year) whose amount has at most four significant
  digits, and every sequence of \<^verbatim>\<open>make_payment\<close> calls, successful or not: at every
  observation point \<^verbatim>\<open>remaining_amount >= 0\<close>, and \<^verbatim>\<open>remaining_amount == 0\<close> holds if and only
  if \<^verbatim>\<open>is_active\<close> is false; and the remaining amount never grows from one observation to
  the next.
\<close>

theorem loan_invariant_four_digits:
  assumes "Loan_init amt rate years = Inr l" and "four_digits amt"
  shows "list_all obs_ok (observations amts l) \<and> non_increasing (observations amts l)"
  using Loan_init_inv[OF assms] by (rule observations_inv)

theorem loan_invariant_four_digits_witness:
  "Loan_init (Dec 1000000 (- 2)) LOAN_INTEREST_RATE LOAN_TERM_YEARS = Inr default_loan \<and>
   four_digits (Dec 1000000 (- 2)) \<and>
   list_all obs_ok (observations [Dec 2000000 (- 2), Dec 6700 (- 2)] default_loan) \<and>
   non_increasing (observations [Dec 2000000 (- 2), Dec 6700 (- 2)] default_loan)"
proof -
  have t: "list_all obs_ok (observations [Dec 2000000 (- 2), Dec 6700 (- 2)] default_loan) \<and>
           non_increasing (observations [Dec 2000000 (- 2), Dec 6700 (- 2)] default_loan)"
    using default_loan_init four_digits_10000 by (rule loan_invariant_four_digits)
  show ?thesis
    by (intro conjI default_loan_init four_digits_10000 conjunct1[OF t] conjunct2[OF t])
qed

section \<open>Account.withdraw and Account.deposit\<close>

text \<open>
  C7, as the claim states it, fails where the context rounds: withdrawing 200.55 from a
  balance of 1000 succeeds, but the balance becomes 799.4 and not 799.45, and the
  Transaction's amount is -200.6 and not -200.55.
\<close>

theorem withdraw_rounding_counterexample:
  "fst (withdraw 0 (Dec 20055 (- 2)) funded_store) = Inr 1 \<and>
   balance (accounts funded_store 0) = Dec 1000 0 \<and>
   balance (accounts (snd (withdraw 0 (Dec 20055 (- 2)) funded_store)) 0) = Dec 7994 (- 1) \<and>
   \<not> dec_eq (Dec 7994 (- 1)) (Dec 79945 (- 2)) \<and>
   amount (txns (snd (withdraw 0 (Dec 20055 (- 2)) funded_store)) ! 1) = Dec (- 2006) (- 1) \<and>
   \<not> dec_eq (Dec (- 2006) (- 1)) (Dec (- 20055) (- 2))"
  by (simp add: acct_eval dec_eval funded_store_def)

text \<open>
  C7, amended. \<^verbatim>\<open>withdraw(amount)\<close> fails with InvalidAmountError "Amount must be positive"
  if \<open>amount <= 0\<close>, else with ValueError "Account is inactive" if the account is not
  active, else with InvalidAmountError "Minimum withdrawal is 20.00" if \<open>amount < 20.00\<close>,
  else with InvalidAmountError "Maximum daily withdrawal is 5000.00" if \<open>amount > 5000.00\<close>,
  else with InsufficientFundsError if \<open>amount > balance\<close>; each failure leaves the store as
  it was. Otherwise it returns a new withdrawal Transaction whose amount is \<^verbatim>\<open>-amount\<close>,
  appended to the account, and sets the balance to \<^verbatim>\<open>balance - amount\<close>, both computed in
  the module's Decimal context of four significant digits: the amount recorded is exactly
  \<open>-amount\<close> when \<open>amount\<close> has at most four significant digits, and the new balance is
  exactly \<open>balance - amount\<close> when that difference has at most four significant digits.
  On a fresh account, after deposit 1000.00 and withdraw 200.00 the balance is 800.00 and
  a withdrawal of 900.00 then fails with InsufficientFundsError.
\<close>

theorem withdraw_checks_and_effect:
  "(dec_le amt (Dec 0 (- 2)) \<longrightarrow>
      withdraw a amt s = (Inl (InvalidAmountError ''Amount must be positive''), s)) \<and>
   (\<not> dec_le amt (Dec 0 (- 2)) \<and> \<not> is_active (accounts s a) \<longrightarrow>
      withdraw a amt s = (Inl (ValueError ''Account is inactive''), s)) \<and>
   (\<not> dec_le amt (Dec 0 (- 2)) \<and> is_active (accounts s a) \<and> dec_lt amt MIN_WITHDRAWAL \<longrightarrow>
      withdraw a amt s = (Inl (InvalidAmountError ''Minimum withdrawal is 20.00''), s)) \<and>
   (\<not> dec_le amt (Dec 0 (- 2)) \<and> is_active (accounts s a) \<and> \<not> dec_lt amt MIN_WITHDRAWAL \<and>
    dec_lt MAX_DAILY_WITHDRAWAL amt \<longrightarrow>
      withdraw a amt s = (Inl (InvalidAmountError ''Maximum daily withdrawal is 5000.00''), s)) \<and>
   (\<not> dec_le amt (Dec 0 (- 2)) \<and> is_active (accounts s a) \<and> \<not> dec_lt amt MIN_WITHDRAWAL \<and>
    \<not> dec_lt MAX_DAILY_WITHDRAWAL amt \<and> dec_lt (balance (accounts s a)) amt \<longrightarrow>
      withdraw a amt s = (Inl (InsufficientFundsError ''Insufficient funds for withdrawal''), s)) \<and>
   (\<not> dec_le amt (Dec 0 (- 2)) \<and> is_active (accounts s a) \<and> \<not> dec_lt amt MIN_WITHDRAWAL \<and>
    \<not> dec_lt MAX_DAILY_WITHDRAWAL amt \<and> \<not> dec_lt (balance (accounts s a)) amt \<longrightarrow>
      fst (withdraw a amt s) = Inr (length (txns s)) \<and>
      txns (snd (withdraw a amt s)) =
        txns s @ [\<lparr>account = a, amount = dec_neg amt, txn_type = ''withdrawal'',
                   status = ''completed''\<rparr>] \<and>
      accounts (snd (withdraw a amt s)) =
        (accounts s)(a := (accounts s a)
          \<lparr>balance := dec_sub (balance (accounts s a)) amt,
           transactions := transactions (accounts s a) @ [length (txns s)]\<rparr>) \<and>
      ((\<exists>d. fits d \<and> val d = val amt) \<longrightarrow> val (dec_neg amt) = - val amt) \<and>
      ((\<exists>d. fits d \<and> val d = val (balance (accounts s a)) - val amt) \<longrightarrow>
         val (dec_sub (balance (accounts s a)) amt) = val (balance (accounts s a)) - val amt)) \<and>
   deposit 0 (Dec 100000 (- 2)) fresh_store = (Inr 0, funded_store) \<and>
   dec_eq (balance (accounts funded_store 0)) (Dec 100000 (- 2)) \<and>
   fst (withdraw 0 (Dec 20000 (- 2)) funded_store) = Inr 1 \<and>
   dec_eq (balance (accounts (snd (withdraw 0 (Dec 20000 (- 2)) funded_store)) 0)) (Dec 80000 (- 2)) \<and>
   withdraw 0 (Dec 90000 (- 2)) (snd (withdraw 0 (Dec 20000 (- 2)) funded_store)) =
     (Inl (InsufficientFundsError ''Insufficient funds for withdrawal''),
      snd (withdraw 0 (Dec 20000 (- 2)) funded_store))"
proof -
  have e1: "dec_le amt (Dec 0 (- 2)) \<longrightarrow>
      withdraw a amt s = (Inl (InvalidAmountError ''Amount must be positive''), s)"
    by (simp add: withdraw_def validate_amount_def)
  have e2: "\<not> dec_le amt (Dec 0 (- 2)) \<and> \<not> is_active (accounts s a) \<longrightarrow>
      withdraw a amt s = (Inl (ValueError ''Account is inactive''), s)"
    by (simp add: withdraw_def validate_amount_def)
  have e3: "\<not> dec_le amt (Dec 0 (- 2)) \<and> is_active (accounts s a) \<and> dec_lt amt MIN_WITHDRAWAL \<longrightarrow>
      withdraw a amt s = (Inl (InvalidAmountError ''Minimum withdrawal is 20.00''), s)"
    by (simp add: withdraw_def validate_amount_def)
  have e4: "\<not> dec_le amt (Dec 0 (- 2)) \<and> is_active (accounts s a) \<and> \<not> dec_lt amt MIN_WITHDRAWAL \<and>
    dec_lt MAX_DAILY_WITHDRAWAL amt \<longrightarrow>
      withdraw a amt s = (Inl (InvalidAmountError ''Maximum daily withdrawal is 5000.00''), s)"
    by (simp add: withdraw_def validate_amount_def)
  have e5: "\<not> dec_le amt (Dec 0 (- 2)) \<and> is_active (accounts s a) \<and> \<not> dec_lt amt MIN_WITHDRAWAL \<and>
    \<not> dec_lt MAX_DAILY_WITHDRAWAL amt \<and> dec_lt (balance (accounts s a)) amt \<longrightarrow>
      withdraw a amt s = (Inl (InsufficientFundsError ''Insufficient funds for withdrawal''), s)"
    by (simp add: withdraw_def validate_amount_def)
  have negx: "(\<exists>d. fits d \<and> val d = val amt) \<longrightarrow> val (dec_neg amt) = - val amt"
    using val_dec_neg_exact by blast
  have subx: "(\<exists>d. fits d \<and> val d = val (balance (accounts s a)) - val amt) \<longrightarrow>
         val (dec_sub (balance (accounts s a)) amt) = val (balance (accounts s a)) - val amt"
    using val_dec_sub_exact by blast
  let ?ok = "\<not> dec_le amt (Dec 0 (- 2)) \<and> is_active (accounts s a) \<and> \<not> dec_lt amt MIN_WITHDRAWAL \<and>
    \<not> dec_lt MAX_DAILY_WITHDRAWAL amt \<and> \<not> dec_lt (balance (accounts s a)) amt"
  have effect: "?ok \<longrightarrow>
      fst (withdraw a amt s) = Inr (length (txns s)) \<and>
      txns (snd (withdraw a amt s)) =
        txns s @ [\<lparr>account = a, amount = dec_neg amt, txn_type = ''withdrawal'',
                   status = ''completed''\<rparr>] \<and>
      accounts (snd (withdraw a amt s)) =
        (accounts s)(a := (accounts s a)
          \<lparr>balance := dec_sub (balance (accounts s a)) amt,
           transactions := transactions (accounts s a) @ [length (txns s)]\<rparr>)"
    by (simp add: withdraw_def validate_amount_def Transaction_init_def set_balance_def
        append_transaction_def Let_def)
  have success: "?ok \<longrightarrow>
      fst (withdraw a amt s) = Inr (length (txns s)) \<and>
      txns (snd (withdraw a amt s)) =
        txns s @ [\<lparr>account = a, amount = dec_neg amt, txn_type = ''withdrawal'',
                   status = ''completed''\<rparr>] \<and>
      accounts (snd (withdraw a amt s)) =
        (accounts s)(a := (accounts s a)
          \<lparr>balance := dec_sub (balance (accounts s a)) amt,
           transactions := transactions (accounts s a) @ [length (txns s)]\<rparr>) \<and>
      ((\<exists>d. fits d \<and> val d = val amt) \<longrightarrow> val (dec_neg amt) = - val amt) \<and>
      ((\<exists>d. fits d \<and> val d = val (balance (accounts s a)) - val amt) \<longrightarrow>
         val (dec_sub (balance (accounts s a)) amt) = val (balance (accounts s a)) - val amt)"
  proof
    assume "?ok"
    with effect have "fst (withdraw a amt s) = Inr (length (txns s)) \<and>
      txns (snd (withdraw a amt s)) =
        txns s @ [\<lparr>account = a, amount = dec_neg amt, txn_type = ''withdrawal'',
                   status = ''completed''\<rparr>] \<and>
      accounts (snd (withdraw a amt s)) =
        (accounts s)(a := (accounts s a)
          \<lparr>balance := dec_sub (balance (accounts s a)) amt,
           transactions := transactions (accounts s a) @ [length (txns s)]\<rparr>)"
      by (rule mp)
    then show "fst (withdraw a amt s) = Inr (length (txns s)) \<and>
      txns (snd (withdraw a amt s)) =
        txns s @ [\<lparr>account = a, amount = dec_neg amt, txn_type = ''withdrawal'',
                   status = ''completed''\<rparr>] \<and>
      accounts (snd (withdraw a amt s)) =
        (accounts s)(a := (accounts s a)
          \<lparr>balance := dec_sub (balance (accounts s a)) amt,
           transactions := transactions (accounts s a) @ [length (txns s)]\<rparr>) \<and>
      ((\<exists>d. fits d \<and> val d = val amt) \<longrightarrow> val (dec_neg amt) = - val amt) \<and>
      ((\<exists>d. fits d \<and> val d = val (balance (accounts s a)) - val amt) \<longrightarrow>
         val (dec_sub (balance (accounts s a)) amt) = val (balance (accounts s a)) - val amt)"
      using negx subx by (elim conjE) (intro conjI; assumption)
  qed
  have sc1: "dec_eq (balance (accounts funded_store 0)) (Dec 100000 (- 2))"
    by (simp add: funded_store_def dec_eval)
  have sc2: "fst (withdraw 0 (Dec 20000 (- 2)) funded_store) = Inr 1"
    by (simp add: acct_eval dec_eval funded_store_def)
  have sc3: "dec_eq (balance (accounts (snd (withdraw 0 (Dec 20000 (- 2)) funded_store)) 0))
      (Dec 80000 (- 2))"
    by (simp add: acct_eval dec_eval funded_store_def)
  have sc4: "withdraw 0 (Dec 90000 (- 2)) (snd (withdraw 0 (Dec 20000 (- 2)) funded_store)) =
     (Inl (InsufficientFundsError ''Insufficient funds for withdrawal''),
      snd (withdraw 0 (Dec 20000 (- 2)) funded_store))"
    by (simp add: acct_eval dec_eval funded_store_def)
  show ?thesis
    by (intro conjI e1 e2 e3 e4 e5 success deposit_1000 sc1 sc2 sc3 sc4)
qed

theorem withdraw_checks_and_effect_witness:
  "\<not> dec_le (Dec 20000 (- 2)) (Dec 0 (- 2)) \<and> is_active (accounts funded_store 0) \<and>
   \<not> dec_lt (Dec 20000 (- 2)) MIN_WITHDRAWAL \<and> \<not> dec_lt MAX_DAILY_WITHDRAWAL (Dec 20000 (- 2)) \<and>
   \<not> dec_lt (balance (accounts funded_store 0)) (Dec 20000 (- 2)) \<and>
   fits (Dec 800 0) \<and> val (Dec 800 0) = val (balance (accounts funded_store 0)) - val (Dec 20000 (- 2)) \<and>
   fst (withdraw 0 (Dec 20000 (- 2)) funded_store) = Inr (length (txns funded_store)) \<and>
   txns (snd (withdraw 0 (Dec 20000 (- 2)) funded_store)) =
     txns funded_store @ [\<lparr>account = 0, amount = dec_neg (Dec 20000 (- 2)),
                          txn_type = ''withdrawal'', status = ''completed''\<rparr>] \<and>
   val (dec_sub (balance (accounts funded_store 0)) (Dec 20000 (- 2))) =
     val (balance (accounts funded_store 0)) - val (Dec 20000 (- 2)) \<and>
   dec_le (Dec 0 (- 2)) (Dec 0 (- 2)) \<and>
   withdraw 0 (Dec 0 (- 2)) funded_store =
     (Inl (InvalidAmountError ''Amount must be positive''), funded_store) \<and>
   dec_lt (balance (accounts funded_store 0)) (Dec 200000 (- 2)) \<and>
   withdraw 0 (Dec 200000 (- 2)) funded_store =
     (Inl (InsufficientFundsError ''Insufficient funds for withdrawal''), funded_store)"
  using withdraw_checks_and_effect[where amt = "Dec 20000 (- 2)" and s = funded_store and a = 0]
    withdraw_checks_and_effect[where amt = "Dec 0 (- 2)" and s = funded_store and a = 0]
    withdraw_checks_and_effect[where amt = "Dec 200000 (- 2)" and s = funded_store and a = 0]
  by (auto simp add: dec_eval fits_def MIN_WITHDRAWAL_def MAX_DAILY_WITHDRAWAL_def funded_store_def
      val_def power_int_minus)

lemma closed_store_eval:
  "close_account ''ACC-2001'' (Map.empty(''ACC-2001'' \<mapsto> 0), fresh_store) =
     (Inr (), Map.empty, closed_store) \<and>
   accounts closed_store 0 = \<lparr>balance = Dec 0 (- 2), transactions = [], is_active = False\<rparr> \<and>
   txns closed_store = []"
  by (simp add: closed_store_def close_account_def fresh_store_def Account_init_def dec_eval)

text \<open>
  C10, as the claim states it, fails where the context rounds: a deposit of 50.00 into an
  inactive account whose balance is 100000 succeeds and leaves the balance at 100000.
\<close>

theorem deposit_absorbed_counterexample:
  "\<not> is_active (accounts closed_rich_store 0) \<and>
   balance (accounts closed_rich_store 0) = Dec 1000 2 \<and>
   fst (deposit 0 (Dec 5000 (- 2)) closed_rich_store) = Inr 1 \<and>
   balance (accounts (snd (deposit 0 (Dec 5000 (- 2)) closed_rich_store)) 0) = Dec 1000 2"
  by (simp add: closed_rich_store_def closed_store_def close_account_def acct_eval dec_eval)

text \<open>
  C10, amended. \<^verbatim>\<open>deposit\<close> never looks at \<^verbatim>\<open>is_active\<close>: on an inactive account a deposit of
  any amount of at least 50.00 succeeds, appends a deposit Transaction of that amount, and
  sets the balance to \<^verbatim>\<open>balance + amount\<close> in the module's Decimal context of four
  significant digits, which is exactly the sum, and more than the old balance, whenever
  the sum has at most four significant digits. The account stays inactive, and
  \<^verbatim>\<open>withdraw\<close> of the same amount fails with ValueError "Account is inactive".
\<close>

theorem deposit_ignores_is_active:
  "\<not> is_active (accounts s a) \<and> dec_le MIN_DEPOSIT amt \<longrightarrow>
     fst (deposit a amt s) = Inr (length (txns s)) \<and>
     txns (snd (deposit a amt s)) =
       txns s @ [\<lparr>account = a, amount = amt, txn_type = ''deposit'', status = ''completed''\<rparr>] \<and>
     accounts (snd (deposit a amt s)) =
       (accounts s)(a := (accounts s a)
         \<lparr>balance := dec_add (balance (accounts s a)) amt,
          transactions := transactions (accounts s a) @ [length (txns s)]\<rparr>) \<and>
     \<not> is_active (accounts (snd (deposit a amt s)) a) \<and>
     ((\<exists>d. fits d \<and> val d = val (balance (accounts s a)) + val amt) \<longrightarrow>
        val (dec_add (balance (accounts s a)) amt) = val (balance (accounts s a)) + val amt \<and>
        dec_lt (balance (accounts s a)) (dec_add (balance (accounts s a)) amt)) \<and>
     withdraw a amt s = (Inl (ValueError ''Account is inactive''), s)"
proof (intro impI, elim conjE)
  assume inactive: "\<not> is_active (accounts s a)" and large: "dec_le MIN_DEPOSIT amt"
  have v: "50 \<le> val amt"
    using large by (simp add: dec_le_val val_consts)
  have pos: "\<not> dec_le amt (Dec 0 (- 2))"
    using v by (simp add: dec_le_val val_consts)
  have enough: "\<not> dec_lt amt MIN_DEPOSIT"
    using v by (simp add: dec_lt_val val_consts)
  have up: "(\<exists>d. fits d \<and> val d = val (balance (accounts s a)) + val amt) \<longrightarrow>
        val (dec_add (balance (accounts s a)) amt) = val (balance (accounts s a)) + val amt \<and>
        dec_lt (balance (accounts s a)) (dec_add (balance (accounts s a)) amt)"
    using v val_dec_add_exact[of _ "balance (accounts s a)" amt] by (auto simp add: dec_lt_val)
  have w: "withdraw a amt s = (Inl (ValueError ''Account is inactive''), s)"
    using pos inactive by (simp add: withdraw_def validate_amount_def)
  show "fst (deposit a amt s) = Inr (length (txns s)) \<and>
     txns (snd (deposit a amt s)) =
       txns s @ [\<lparr>account = a, amount = amt, txn_type = ''deposit'', status = ''completed''\<rparr>] \<and>
     accounts (snd (deposit a amt s)) =
       (accounts s)(a := (accounts s a)
         \<lparr>balance := dec_add (balance (accounts s a)) amt,
          transactions := transactions (accounts s a) @ [length (txns s)]\<rparr>) \<and>
     \<not> is_active (accounts (snd (deposit a amt s)) a) \<and>
     ((\<exists>d. fits d \<and> val d = val (balance (accounts s a)) + val amt) \<longrightarrow>
        val (dec_add (balance (accounts s a)) amt) = val (balance (accounts s a)) + val amt \<and>
        dec_lt (balance (accounts s a)) (dec_add (balance (accounts s a)) amt)) \<and>
     withdraw a amt s = (Inl (ValueError ''Account is inactive''), s)"
    using pos enough inactive up w
    by (simp add: deposit_def validate_amount_def Transaction_init_def set_balance_def
        append_transaction_def Let_def)
qed

theorem deposit_ignores_is_active_witness:
  "\<not> is_active (accounts closed_store 0) \<and> dec_le MIN_DEPOSIT (Dec 10000 (- 2)) \<and>
   fits (Dec 100 0) \<and> val (Dec 100 0) = val (balance (accounts closed_store 0)) + val (Dec 10000 (- 2)) \<and>
   fst (deposit 0 (Dec 10000 (- 2)) closed_store) = Inr 0 \<and>
   txns (snd (deposit 0 (Dec 10000 (- 2)) closed_store)) =
     [\<lparr>account = 0, amount = Dec 10000 (- 2), txn_type = ''deposit'', status = ''completed''\<rparr>] \<and>
   dec_lt (balance (accounts closed_store 0))
     (dec_add (balance (accounts closed_store 0)) (Dec 10000 (- 2))) \<and>
   withdraw 0 (Dec 10000 (- 2)) closed_store = (Inl (ValueError ''Account is inactive''), closed_store)"
  using deposit_ignores_is_active[of closed_store 0 "Dec 10000 (- 2)"] closed_store_eval
  by (auto simp add: dec_eval fits_def MIN_DEPOSIT_def val_def power_int_minus)

section \<open>The ledger and the balance\<close>

text \<open>
  Appending a transaction to the store leaves the entries of every account's ledger as
  they were, and adds one entry to the ledger of the account it is appended to.
\<close>

lemma old_refs_map:
  "list_all (\<lambda>t. t < length xs) ts \<Longrightarrow> map (\<lambda>t. f ((xs @ ys) ! t)) ts = map (\<lambda>t. f (xs ! t)) ts"
  by (induction ts) (simp_all add: nth_append)

lemma old_refs_filter:
  "list_all (\<lambda>t. t < length xs) ts \<Longrightarrow>
   filter (\<lambda>t. P ((xs @ ys) ! t)) ts = filter (\<lambda>t. P (xs ! t)) ts"
  by (induction ts) (simp_all add: nth_append)

lemma old_refs_valid:
  "list_all (\<lambda>t. t < length xs) ts \<Longrightarrow> list_all (\<lambda>t. t < length (xs @ ys)) ts"
  by (induction ts) simp_all

lemma filter_valid:
  "list_all (\<lambda>t. t < length xs) ts \<Longrightarrow> list_all (\<lambda>t. t < length xs) (filter P ts)"
  by (induction ts) simp_all

lemma entry_elsewhere:
  assumes "txns s' = txns s @ [tx]" and "accounts s' a = accounts s a"
    and "list_all (\<lambda>t. t < length (txns s)) (transactions (accounts s a))"
  shows "list_all (\<lambda>t. t < length (txns s')) (transactions (accounts s' a))"
    and "applied_ledger s' a = applied_ledger s a"
proof -
  show "list_all (\<lambda>t. t < length (txns s')) (transactions (accounts s' a))"
    using assms old_refs_valid[of "txns s" "transactions (accounts s a)" "[tx]"] by simp
  have "filter (\<lambda>t. txn_type ((txns s @ [tx]) ! t) \<noteq> ''transfer'') (transactions (accounts s a)) =
        filter (\<lambda>t. txn_type (txns s ! t) \<noteq> ''transfer'') (transactions (accounts s a))"
    using assms(3) by (rule old_refs_filter)
  moreover have "map (\<lambda>t. amount ((txns s @ [tx]) ! t))
          (filter (\<lambda>t. txn_type (txns s ! t) \<noteq> ''transfer'') (transactions (accounts s a))) =
        map (\<lambda>t. amount (txns s ! t))
          (filter (\<lambda>t. txn_type (txns s ! t) \<noteq> ''transfer'') (transactions (accounts s a)))"
    using filter_valid[OF assms(3)] by (rule old_refs_map)
  ultimately show "applied_ledger s' a = applied_ledger s a"
    by (simp add: applied_ledger_def assms(1,2))
qed

lemma entry_appended:
  assumes "txns s' = txns s @ [tx]"
    and "transactions (accounts s' x) = transactions (accounts s x) @ [length (txns s)]"
    and "list_all (\<lambda>t. t < length (txns s)) (transactions (accounts s x))"
  shows "list_all (\<lambda>t. t < length (txns s')) (transactions (accounts s' x))"
    and "applied_ledger s' x =
           applied_ledger s x @ (if txn_type tx \<noteq> ''transfer'' then [amount tx] else [])"
proof -
  show "list_all (\<lambda>t. t < length (txns s')) (transactions (accounts s' x))"
    using assms old_refs_valid[of "txns s" "transactions (accounts s x)" "[tx]"] by simp
  have f: "filter (\<lambda>t. txn_type ((txns s @ [tx]) ! t) \<noteq> ''transfer'') (transactions (accounts s x)) =
        filter (\<lambda>t. txn_type (txns s ! t) \<noteq> ''transfer'') (transactions (accounts s x))"
    using assms(3) by (rule old_refs_filter)
  have m: "map (\<lambda>t. amount ((txns s @ [tx]) ! t))
          (filter (\<lambda>t. txn_type (txns s ! t) \<noteq> ''transfer'') (transactions (accounts s x))) =
        map (\<lambda>t. amount (txns s ! t))
          (filter (\<lambda>t. txn_type (txns s ! t) \<noteq> ''transfer'') (transactions (accounts s x)))"
    using filter_valid[OF assms(3)] by (rule old_refs_map)
  show "applied_ledger s' x =
           applied_ledger s x @ (if txn_type tx \<noteq> ''transfer'' then [amount tx] else [])"
    by (simp add: applied_ledger_def assms(1,2) f m)
qed

lemma py_sum_snoc: "py_sum (xs @ [x]) = dec_add (py_sum xs) x"
  by (simp add: py_sum_def)

lemma deposit_effect:
  assumes "\<not> dec_le amt (Dec 0 (- 2))" and "\<not> dec_lt amt MIN_DEPOSIT"
  shows "fst (deposit x amt s) = Inr (length (txns s))"
    and "txns (snd (deposit x amt s)) =
          txns s @ [\<lparr>account = x, amount = amt, txn_type = ''deposit'', status = ''completed''\<rparr>]"
    and "accounts (snd (deposit x amt s)) =
          (accounts s)(x := (accounts s x)
            \<lparr>balance := dec_add (balance (accounts s x)) amt,
             transactions := transactions (accounts s x) @ [length (txns s)]\<rparr>)"
  using assms
  by (simp_all add: deposit_def validate_amount_def Transaction_init_def set_balance_def
      append_transaction_def Let_def)

lemma deposit_failure:
  assumes "dec_le amt (Dec 0 (- 2)) \<or> dec_lt amt MIN_DEPOSIT"
  shows "snd (deposit x amt s) = s"
  using assms by (auto simp add: deposit_def validate_amount_def)

lemma withdraw_effect:
  assumes "\<not> dec_le amt (Dec 0 (- 2))" and "is_active (accounts s x)"
    and "\<not> dec_lt amt MIN_WITHDRAWAL" and "\<not> dec_lt MAX_DAILY_WITHDRAWAL amt"
    and "\<not> dec_lt (balance (accounts s x)) amt"
  shows "fst (withdraw x amt s) = Inr (length (txns s))"
    and "txns (snd (withdraw x amt s)) =
          txns s @ [\<lparr>account = x, amount = dec_neg amt, txn_type = ''withdrawal'',
                     status = ''completed''\<rparr>]"
    and "accounts (snd (withdraw x amt s)) =
          (accounts s)(x := (accounts s x)
            \<lparr>balance := dec_sub (balance (accounts s x)) amt,
             transactions := transactions (accounts s x) @ [length (txns s)]\<rparr>)"
  using assms
  by (simp_all add: withdraw_def validate_amount_def Transaction_init_def set_balance_def
      append_transaction_def Let_def)

lemma withdraw_failure:
  assumes "dec_le amt (Dec 0 (- 2)) \<or> \<not> is_active (accounts s x) \<or> dec_lt amt MIN_WITHDRAWAL \<or>
     dec_lt MAX_DAILY_WITHDRAWAL amt \<or> dec_lt (balance (accounts s x)) amt"
  shows "\<exists>e. withdraw x amt s = (Inl e, s)"
  using assms by (auto simp add: withdraw_def validate_amount_def)

lemma deposit_ledger:
  assumes "\<And>a. ledger_ok s a"
  shows "ledger_ok (snd (deposit x amt s)) a"
proof (cases "dec_le amt (Dec 0 (- 2)) \<or> dec_lt amt MIN_DEPOSIT")
  case True
  then show ?thesis
    using assms by (simp add: deposit_failure)
next
  case False
  then have ok: "\<not> dec_le amt (Dec 0 (- 2))" "\<not> dec_lt amt MIN_DEPOSIT"
    by simp_all
  let ?s' = "snd (deposit x amt s)"
  let ?tx = "\<lparr>account = x, amount = amt, txn_type = ''deposit'', status = ''completed''\<rparr>"
  have t: "txns ?s' = txns s @ [?tx]"
    by (rule deposit_effect(2)[OF ok])
  have acc: "accounts ?s' = (accounts s)(x := (accounts s x)
            \<lparr>balance := dec_add (balance (accounts s x)) amt,
             transactions := transactions (accounts s x) @ [length (txns s)]\<rparr>)"
    by (rule deposit_effect(3)[OF ok])
  have valid: "list_all (\<lambda>t. t < length (txns s)) (transactions (accounts s b))" for b
    using assms[of b] by (simp add: ledger_ok_def)
  have sum: "dec_eq (balance (accounts s b)) (py_sum (applied_ledger s b))" for b
    using assms[of b] by (simp add: ledger_ok_def)
  show ?thesis
  proof (cases "a = x")
    case True
    have tr: "transactions (accounts ?s' x) = transactions (accounts s x) @ [length (txns s)]"
      by (simp add: acc)
    have bal: "balance (accounts ?s' x) = dec_add (balance (accounts s x)) amt"
      by (simp add: acc)
    have l: "applied_ledger ?s' x = applied_ledger s x @ [amt]"
      using entry_appended(2)[OF t tr valid] by simp
    have "val (dec_add (balance (accounts s x)) amt) = val (dec_add (py_sum (applied_ledger s x)) amt)"
      using sum[of x] by (intro dec_add_cong) (simp_all add: dec_eq_val)
    then have "dec_eq (balance (accounts ?s' x)) (py_sum (applied_ledger ?s' x))"
      by (simp add: bal l py_sum_snoc dec_eq_val)
    then show ?thesis
      using entry_appended(1)[OF t tr valid] True by (simp add: ledger_ok_def)
  next
    case False
    then have same: "accounts ?s' a = accounts s a"
      by (simp add: acc)
    show ?thesis
      using entry_elsewhere[OF t same valid] sum[of a] same by (simp add: ledger_ok_def)
  qed
qed

lemma withdraw_ledger:
  assumes "\<And>a. ledger_ok s a" and "neg_exact amt"
  shows "ledger_ok (snd (withdraw x amt s)) a"
proof (cases "dec_le amt (Dec 0 (- 2)) \<or> \<not> is_active (accounts s x) \<or> dec_lt amt MIN_WITHDRAWAL \<or>
     dec_lt MAX_DAILY_WITHDRAWAL amt \<or> dec_lt (balance (accounts s x)) amt")
  case True
  then obtain e where "withdraw x amt s = (Inl e, s)"
    using withdraw_failure by blast
  then show ?thesis
    using assms(1) by simp
next
  case False
  then have ok: "\<not> dec_le amt (Dec 0 (- 2))" "is_active (accounts s x)"
    "\<not> dec_lt amt MIN_WITHDRAWAL" "\<not> dec_lt MAX_DAILY_WITHDRAWAL amt"
    "\<not> dec_lt (balance (accounts s x)) amt"
    by simp_all
  let ?s' = "snd (withdraw x amt s)"
  let ?tx = "\<lparr>account = x, amount = dec_neg amt, txn_type = ''withdrawal'', status = ''completed''\<rparr>"
  have t: "txns ?s' = txns s @ [?tx]"
    by (rule withdraw_effect(2)[OF ok])
  have acc: "accounts ?s' = (accounts s)(x := (accounts s x)
            \<lparr>balance := dec_sub (balance (accounts s x)) amt,
             transactions := transactions (accounts s x) @ [length (txns s)]\<rparr>)"
    by (rule withdraw_effect(3)[OF ok])
  have valid: "list_all (\<lambda>t. t < length (txns s)) (transactions (accounts s b))" for b
    using assms(1)[of b] by (simp add: ledger_ok_def)
  have sum: "dec_eq (balance (accounts s b)) (py_sum (applied_ledger s b))" for b
    using assms(1)[of b] by (simp add: ledger_ok_def)
  show ?thesis
  proof (cases "a = x")
    case True
    have tr: "transactions (accounts ?s' x) = transactions (accounts s x) @ [length (txns s)]"
      by (simp add: acc)
    have bal: "balance (accounts ?s' x) = dec_add (balance (accounts s x)) (copy_negate amt)"
      by (simp add: acc dec_sub_def)
    have l: "applied_ledger ?s' x = applied_ledger s x @ [dec_neg amt]"
      using entry_appended(2)[OF t tr valid] by simp
    have "val (dec_add (balance (accounts s x)) (copy_negate amt)) =
          val (dec_add (py_sum (applied_ledger s x)) (dec_neg amt))"
      using sum[of x] assms(2) by (intro dec_add_cong) (simp_all add: dec_eq_val neg_exact_def)
    then have "dec_eq (balance (accounts ?s' x)) (py_sum (applied_ledger ?s' x))"
      by (simp add: bal l py_sum_snoc dec_eq_val)
    then show ?thesis
      using entry_appended(1)[OF t tr valid] True by (simp add: ledger_ok_def)
  next
    case False
    then have same: "accounts ?s' a = accounts s a"
      by (simp add: acc)
    show ?thesis
      using entry_elsewhere[OF t same valid] sum[of a] same by (simp add: ledger_ok_def)
  qed
qed

text \<open>The bookkeeping entry of a transfer: appended to the sender, the balance untouched.\<close>

lemma transfer_entry_ledger:
  assumes "\<And>a. ledger_ok s a"
  shows "ledger_ok (append_transaction x (fst (Transaction_init x amt ''transfer'' s))
                      (snd (Transaction_init x amt ''transfer'' s))) a"
proof -
  let ?s' = "append_transaction x (fst (Transaction_init x amt ''transfer'' s))
                      (snd (Transaction_init x amt ''transfer'' s))"
  let ?tx = "\<lparr>account = x, amount = amt, txn_type = ''transfer'', status = ''completed''\<rparr>"
  have t: "txns ?s' = txns s @ [?tx]"
    by (simp add: append_transaction_def Transaction_init_def)
  have acc: "accounts ?s' = (accounts s)(x := (accounts s x)
            \<lparr>transactions := transactions (accounts s x) @ [length (txns s)]\<rparr>)"
    by (simp add: append_transaction_def Transaction_init_def)
  have valid: "list_all (\<lambda>t. t < length (txns s)) (transactions (accounts s b))" for b
    using assms[of b] by (simp add: ledger_ok_def)
  have sum: "dec_eq (balance (accounts s b)) (py_sum (applied_ledger s b))" for b
    using assms[of b] by (simp add: ledger_ok_def)
  show ?thesis
  proof (cases "a = x")
    case True
    have tr: "transactions (accounts ?s' x) = transactions (accounts s x) @ [length (txns s)]"
      by (simp add: acc)
    have bal: "balance (accounts ?s' x) = balance (accounts s x)"
      by (simp add: acc)
    have l: "applied_ledger ?s' x = applied_ledger s x"
      using entry_appended(2)[OF t tr valid] by simp
    show ?thesis
      using entry_appended(1)[OF t tr valid] True sum[of x] by (simp add: ledger_ok_def bal l)
  next
    case False
    then have same: "accounts ?s' a = accounts s a"
      by (simp add: acc)
    show ?thesis
      using entry_elsewhere[OF t same valid] sum[of a] same by (simp add: ledger_ok_def)
  qed
qed

lemma transfer_ledger:
  assumes "\<And>a. ledger_ok s a" and "neg_exact amt"
  shows "ledger_ok (snd (transfer x amt r s)) a"
proof (cases "dec_le amt (Dec 0 (- 2)) \<or> x = r \<or> \<not> is_active (accounts s r)")
  case True
  then have "snd (transfer x amt r s) = s"
    by (auto simp add: transfer_def validate_amount_def)
  then show ?thesis
    using assms(1) by simp
next
  case False
  obtain rw s1 where w: "withdraw x amt s = (rw, s1)"
    by (cases "withdraw x amt s")
  obtain rd s2 where d: "deposit r amt s1 = (rd, s2)"
    by (cases "deposit r amt s1")
  have s1: "ledger_ok s1 b" for b
    using withdraw_ledger[OF assms, of x b] w by simp
  have s2: "ledger_ok s2 b" for b
    using deposit_ledger[OF s1, of r amt b] d by simp
  have s3: "ledger_ok (append_transaction x (fst (Transaction_init x (dec_neg amt) ''transfer'' s2))
                      (snd (Transaction_init x (dec_neg amt) ''transfer'' s2))) a"
    using s2 by (rule transfer_entry_ledger)
  show ?thesis
  proof (cases rw)
    case (Inl e)
    then show ?thesis
      using False w s1[of a] by (simp add: transfer_def validate_amount_def)
  next
    case (Inr tw)
    show ?thesis
    proof (cases rd)
      case (Inl e)
      then show ?thesis
        using False w d Inr s2[of a] by (simp add: transfer_def validate_amount_def)
    next
      case (Inr td)
      then show ?thesis
        using False w d \<open>rw = Inr tw\<close> s3
        by (simp add: transfer_def validate_amount_def case_prod_beta)
    qed
  qed
qed

lemma fresh_ledger_ok: "ledger_ok fresh_store a"
  by (simp add: ledger_ok_def fresh_store_def Account_init_def applied_ledger_def dec_eval)

text \<open>
  C1, as the claim states it, fails after a transfer: \<^verbatim>\<open>transfer\<close> debits the sender once, in
  \<^verbatim>\<open>withdraw\<close>, and then appends a second entry of \<^verbatim>\<open>-amount\<close>, tagged \<^verbatim>\<open>transfer\<close>, that no
  balance ever sees. After a deposit of 1000.00 and a transfer of 100.00 the sender's
  balance is 900.0 and the sum of its transaction amounts is 800.0.
\<close>

theorem transfer_ledger_counterexample:
  "fst (transfer 0 (Dec 10000 (- 2)) 1 funded_store) = Inr 3 \<and>
   balance (accounts (snd (transfer 0 (Dec 10000 (- 2)) 1 funded_store)) 0) = Dec 9000 (- 1) \<and>
   ledger (snd (transfer 0 (Dec 10000 (- 2)) 1 funded_store)) 0 =
     [Dec 100000 (- 2), Dec (- 1000) (- 1), Dec (- 1000) (- 1)] \<and>
   py_sum (ledger (snd (transfer 0 (Dec 10000 (- 2)) 1 funded_store)) 0) = Dec 8000 (- 1) \<and>
   \<not> dec_eq (balance (accounts (snd (transfer 0 (Dec 10000 (- 2)) 1 funded_store)) 0))
            (py_sum (ledger (snd (transfer 0 (Dec 10000 (- 2)) 1 funded_store)) 0))"
  by (simp add: acct_eval dec_eval funded_store_def)

text \<open>
  C1, amended. For every account, after any sequence of \<^verbatim>\<open>deposit\<close>, \<^verbatim>\<open>withdraw\<close> and
  \<^verbatim>\<open>transfer\<close> calls, successful or not, whose withdrawn and transferred amounts have an
  exact unary minus (at most four significant digits), the balance equals the sum of the
  amounts of the account's transactions other than the entries tagged \<^verbatim>\<open>transfer\<close>:
  \<^verbatim>\<open>balance == sum(t.amount for t in transactions if t.type != 'transfer')\<close>, as Python
  evaluates it in the module's Decimal context. The invariant \<open>ledger_ok\<close> also says that
  every transaction of the account is an object of the store.
\<close>

theorem ledger_sum_of_applied_entries:
  assumes "\<forall>a. ledger_ok s a" and "list_all debit_exact ops"
  shows "ledger_ok (run ops s) a"
  using assms
proof (induction ops arbitrary: s)
  case Nil
  then show ?case by simp
next
  case (Cons x xs)
  have "\<forall>b. ledger_ok (apply_op x s) b"
  proof (cases x)
    case (Deposit c amt)
    then show ?thesis
      using Cons.prems(1) by (simp add: deposit_ledger)
  next
    case (Withdraw c amt)
    then show ?thesis
      using Cons.prems by (simp add: withdraw_ledger)
  next
    case (Transfer c amt r)
    then show ?thesis
      using Cons.prems by (simp add: transfer_ledger)
  qed
  then show ?case
    using Cons.IH[of "apply_op x s"] Cons.prems(2) by simp
qed

theorem ledger_sum_of_applied_entries_witness:
  "(\<forall>a. ledger_ok fresh_store a) \<and>
   list_all debit_exact
     [Deposit 0 (Dec 100000 (- 2)), Transfer 0 (Dec 10000 (- 2)) 1, Withdraw 1 (Dec 2000 (- 2))] \<and>
   ledger_ok
     (run [Deposit 0 (Dec 100000 (- 2)), Transfer 0 (Dec 10000 (- 2)) 1, Withdraw 1 (Dec 2000 (- 2))]
        fresh_store) 0"
  using ledger_sum_of_applied_entries[of fresh_store
      "[Deposit 0 (Dec 100000 (- 2)), Transfer 0 (Dec 10000 (- 2)) 1, Withdraw 1 (Dec 2000 (- 2))]" 0]
    fresh_ledger_ok
  by (simp add: neg_exact_def dec_eval)

end
